theory Spec2Isabelle
  imports Complex_Main "HOL-Library.Log_Nat"
begin

section \<open>Crowd monitor: capacity estimation and alert evaluation\<close>

text \<open>
  A shallow embedding of \<^verbatim>\<open>config.py\<close> and of the functions
  \<^verbatim>\<open>estimate_venue_capacity\<close>, \<^verbatim>\<open>count_people_in_frame\<close> and
  \<^verbatim>\<open>get_alert_status\<close> of \<^verbatim>\<open>utils.py\<close>.

  Numbers. Python's \<^verbatim>\<open>int\<close> is unbounded and is modelled by \<^typ>\<open>int\<close>. A Python
  \<^verbatim>\<open>float\<close> is an IEEE 754 binary64 number. The two functions that compute with floats
  are embedded twice:
  \<^item> \<open>estimate_venue_capacity\<close> and \<open>get_alert_status\<close> read every number as the rational
    it denotes (type \<^typ>\<open>rat\<close>) and compute with the exact operations. This reading
    decides which branch is taken, and the order of the results, as the code does (lemmas
    \<open>exact_reading_agrees\<close>, \<open>get_alert_status_b64_monotone\<close> and
    \<open>estimate_b64_ordered\<close>); it does not give the digits of a float, and it has no
    \<^verbatim>\<open>OverflowError\<close>.
  \<^item> \<open>estimate_venue_capacity_b64\<close> and \<open>get_alert_status_b64\<close> compute as CPython does:
    every operation rounds its exact result to the nearest binary64 number, ties to even,
    a product beyond the range is an infinity, and the conversions between \<^verbatim>\<open>int\<close> and
    \<^verbatim>\<open>float\<close> raise where CPython raises. What is said about the value of a
    percentage or of a capacity, and about raising, is proved of this reading.
  \<open>count_people_in_frame\<close> is embedded once, with binary64 arithmetic.
\<close>

subsection \<open>The module constants (\<^verbatim>\<open>config.py\<close>)\<close>

text \<open>
  \<^verbatim>\<open>utils.py\<close> starts with \<^verbatim>\<open>from config import *\<close>; its functions look the
  constants up in the module namespace each time they run. The namespace is a record, passed
  to every function that reads it; \<open>config\<close> is the namespace that \<^verbatim>\<open>config.py\<close>
  sets up. Only the names that the modelled functions read are kept.
\<close>

type_synonym bgr = "int \<times> int \<times> int"

record globals =
  SAFE_DENSITY :: rat
  MAX_DENSITY :: rat
  PERSON_CLASS_ID :: int
  DEFAULT_VENUE_AREA :: rat
  COLOR_SAFE :: bgr
  COLOR_WARNING :: bgr
  COLOR_CRITICAL :: bgr

definition config :: globals where
  "config =
     \<lparr> SAFE_DENSITY = 4 / 10,
       MAX_DENSITY = 67 / 100,
       PERSON_CLASS_ID = 0,
       DEFAULT_VENUE_AREA = 500,
       COLOR_SAFE = (76, 175, 80),
       COLOR_WARNING = (255, 152, 0),
       COLOR_CRITICAL = (244, 67, 54) \<rparr>"

subsection \<open>\<^verbatim>\<open>estimate_venue_capacity\<close>\<close>

text \<open>Python's \<^verbatim>\<open>int(x)\<close> on a number drops the fractional part (rounds towards zero).\<close>

definition py_int :: "rat \<Rightarrow> int" where
  "py_int x = (if 0 \<le> x then \<lfloor>x\<rfloor> else \<lceil>x\<rceil>)"

text \<open>The dictionary that \<^verbatim>\<open>estimate_venue_capacity\<close> returns, one field for each key.\<close>

record 'a capacity_estimate =
  area :: 'a
  safe_capacity :: int
  max_capacity :: int

text \<open>
  The argument \<^verbatim>\<open>area_sqm\<close> defaults to \<^verbatim>\<open>None\<close>: it is an option. The local
  variable \<^verbatim>\<open>area_sqm\<close> after the first \<^verbatim>\<open>if\<close> is \<open>a\<close>.
\<close>

definition estimate_venue_capacity :: "globals \<Rightarrow> rat option \<Rightarrow> rat capacity_estimate" where
  "estimate_venue_capacity g area_sqm =
     (let a = (case area_sqm of
                 None \<Rightarrow> DEFAULT_VENUE_AREA g
               | Some x \<Rightarrow> if x \<le> 0 then DEFAULT_VENUE_AREA g else x)
      in \<lparr> area = a,
           safe_capacity = py_int (a * SAFE_DENSITY g),
           max_capacity = py_int (a * MAX_DENSITY g) \<rparr>)"

subsection \<open>Exceptions\<close>

text \<open>
  A Python exception is a value; a computation that may raise returns \<open>Inl\<close> of the
  exception or \<open>Inr\<close> of its result. Every constructor stands for a subclass of
  \<^verbatim>\<open>Exception\<close>, which is what \<^verbatim>\<open>except Exception\<close> catches;
  \<open>CollaboratorError\<close> is whatever \<^verbatim>\<open>cv2.resize\<close> or the detection model raises,
  with its text.
\<close>

datatype py_exception =
  ZeroDivisionError | OverflowError | IndexError | ValueError | AttributeError |
  CollaboratorError string

text \<open>Sequencing: the first exception ends the computation.\<close>

fun bind_exc :: "py_exception + 'a \<Rightarrow> ('a \<Rightarrow> py_exception + 'b) \<Rightarrow> py_exception + 'b" where
  "bind_exc (Inl e) f = Inl e"
| "bind_exc (Inr x) f = f x"

text \<open>Python's \<^verbatim>\<open>a / b\<close> on two integers: true division, which raises on a zero divisor.\<close>

definition py_truediv :: "int \<Rightarrow> int \<Rightarrow> py_exception + rat" where
  "py_truediv a b = (if b = 0 then Inl ZeroDivisionError else Inr (of_int a / of_int b))"

subsection \<open>\<^verbatim>\<open>get_alert_status\<close>\<close>

text \<open>
  The dictionary that \<^verbatim>\<open>get_alert_status\<close> returns. Its strings are Python
  \<^verbatim>\<open>str\<close> literals; a \<^typ>\<open>string\<close> holds the bytes of the literal as they stand in
  the UTF-8 source file (only the three \<^verbatim>\<open>status_emoji\<close> literals are not ASCII).
\<close>

record 'n alert =
  status :: string
  status_emoji :: string
  color :: string
  color_bgr :: bgr
  percentage :: 'n
  message :: string
  recommendations :: "string list"

text \<open>
  The percentage is computed first, by a conditional expression that evaluates the division
  only when \<^verbatim>\<open>max_capacity > 0\<close>; then the \<^verbatim>\<open>if\<close>/\<^verbatim>\<open>elif\<close>/\<^verbatim>\<open>else\<close>
  chain builds the dictionary. The parameters \<^verbatim>\<open>safe_capacity\<close> and
  \<^verbatim>\<open>max_capacity\<close> are \<open>safe_cap\<close> and \<open>max_cap\<close> here, the local variable
  \<^verbatim>\<open>percentage\<close> is \<open>pct\<close> (the source's names are taken by the record fields).
\<close>

definition get_alert_status :: "globals \<Rightarrow> int \<Rightarrow> int \<Rightarrow> int \<Rightarrow> py_exception + rat alert" where
  "get_alert_status g current_count safe_cap max_cap =
     bind_exc
       (if max_cap > 0
        then bind_exc (py_truediv current_count max_cap) (\<lambda>q. Inr (q * 100))
        else Inr 0)
       (\<lambda>pct.
          if current_count \<ge> max_cap then
            Inr \<lparr> status = ''CRITICAL'',
                  status_emoji =
                    [CHR 0xC3, CHR 0xB0, CHR 0xC5, CHR 0xB8, CHR 0xC5, CHR 0xA1, CHR 0xC2, CHR 0xA8],
                  color = ''critical'',
                  color_bgr = COLOR_CRITICAL g,
                  percentage = pct,
                  message = ''Overcrowding Detected'',
                  recommendations =
                    [''Stop all entries immediately'',
                     ''Activate emergency protocols'',
                     ''Deploy security personnel'',
                     ''Open emergency exits'',
                     ''Alert emergency services''] \<rparr>
          else if current_count \<ge> safe_cap then
            Inr \<lparr> status = ''WARNING'',
                  status_emoji =
                    [CHR 0xC3, CHR 0xA2, CHR 0xC5, CHR 0xA1, CHR 0xC2, CHR 0xA0, CHR 0xC3, CHR 0xAF,
                     CHR 0xC2, CHR 0xB8],
                  color = ''warning'',
                  color_bgr = COLOR_WARNING g,
                  percentage = pct,
                  message = ''Approaching Capacity'',
                  recommendations =
                    [''Reduce entry rate'',
                     ''Increase monitoring'',
                     ''Prepare dispersal plan'',
                     ''Alert security team'',
                     ''Monitor crowd flow''] \<rparr>
          else
            Inr \<lparr> status = ''SAFE'',
                  status_emoji = [CHR 0xC3, CHR 0xA2, CHR 0xC5, CHR 0x93, CHR 0xE2, CHR 0x80, CHR 0xA6],
                  color = ''safe'',
                  color_bgr = COLOR_SAFE g,
                  percentage = pct,
                  message = ''Normal Operations'',
                  recommendations =
                    [''Continue monitoring'',
                     ''Maintain regular checks''] \<rparr>)"

text \<open>
  The ordering of the three statuses, SAFE below WARNING below CRITICAL, as a rank; a string
  that is no status has none.
\<close>

definition status_rank :: "string \<Rightarrow> nat option" where
  "status_rank s =
     (if s = ''SAFE'' then Some 0
      else if s = ''WARNING'' then Some 1
      else if s = ''CRITICAL'' then Some 2
      else None)"

text \<open>The value of the guarded percentage, for the proofs.\<close>

definition percentage_of :: "int \<Rightarrow> int \<Rightarrow> rat" where
  "percentage_of c max_cap = (if max_cap > 0 then 100 * of_int c / of_int max_cap else 0)"

subsection \<open>Binary64 arithmetic\<close>

text \<open>
  A finite binary64 number is a rational \<open>n * 2 ^ j\<close> with \<open>\<bar>n\<bar> < 2 ^ 53\<close> and
  \<open>- 1074 \<le> j \<le> 971\<close>. \<open>ilog2 x\<close> is the binary exponent of \<open>x \<noteq> 0\<close>, the \<open>e\<close> with
  \<open>2 ^ e \<le> \<bar>x\<bar> < 2 ^ (e + 1)\<close>, computed from the bit lengths of numerator and denominator.
\<close>

definition ilog2 :: "rat \<Rightarrow> int" where
  "ilog2 x =
     (case quotient_of \<bar>x\<bar> of
        (p, q) \<Rightarrow> (let d = bitlen p - bitlen q in if 2 powi d \<le> \<bar>x\<bar> then d else d - 1))"

text \<open>The nearest integer, a tie going to the even one.\<close>

definition round_half_even :: "rat \<Rightarrow> int" where
  "round_half_even z =
     (let f = \<lfloor>z\<rfloor>; r = z - of_int f
      in if r < 1 / 2 then f else if 1 / 2 < r then f + 1 else if even f then f else f + 1)"

text \<open>
  The spacing of the binary64 numbers around \<open>x\<close>: 52 binary places below the exponent of
  \<open>x\<close>, and the spacing of the subnormal numbers, \<open>2 ^ - 1074\<close>, below \<open>2 ^ - 1022\<close>.
\<close>

definition quantum :: "rat \<Rightarrow> rat" where
  "quantum x = 2 powi (max (ilog2 x) (- 1022) - 52)"

text \<open>
  Rounding to binary64 with an unbounded exponent: the multiple of the spacing nearest to
  \<open>x\<close>. The result is a binary64 number when it is below \<open>2 ^ 1024\<close> in absolute value;
  each operation says what it does otherwise.
\<close>

definition binary64 :: "rat \<Rightarrow> rat" where
  "binary64 x =
     (if x = 0 then 0
      else (let q = 2 powi (max (ilog2 x) (- 1022) - 52)
            in of_int (round_half_even (x / q)) * q))"

text \<open>
  A Python \<^verbatim>\<open>float\<close>. The two zeros are one value here (they are equal in Python, and
  \<^verbatim>\<open>int\<close> maps both to 0). A Python number is an \<^verbatim>\<open>int\<close> or a \<^verbatim>\<open>float\<close>.
\<close>

datatype pyfloat = Finite rat | PosInf | NegInf | NaN

datatype pynum = PyInt int | PyFloat pyfloat

text \<open>The result of a float operation whose exact value is \<open>x\<close>: overflow gives an infinity.\<close>

definition py_float_result :: "rat \<Rightarrow> pyfloat" where
  "py_float_result x =
     (let y = binary64 x
      in if 2 ^ 1024 \<le> y then PosInf else if y \<le> - (2 ^ 1024) then NegInf else Finite y)"

text \<open>
  The conversion of an \<^verbatim>\<open>int\<close> operand of a float operation, and \<^verbatim>\<open>a / b\<close> on two
  integers: both round correctly and raise \<^verbatim>\<open>OverflowError\<close> beyond the range.
\<close>

definition py_float_of_int :: "int \<Rightarrow> py_exception + pyfloat" where
  "py_float_of_int a =
     (let y = binary64 (of_int a)
      in if 2 ^ 1024 \<le> \<bar>y\<bar> then Inl OverflowError else Inr (Finite y))"

definition py_int_truediv :: "int \<Rightarrow> int \<Rightarrow> py_exception + pyfloat" where
  "py_int_truediv a b =
     (if b = 0 then Inl ZeroDivisionError
      else (let y = binary64 (of_int a / of_int b)
            in if 2 ^ 1024 \<le> \<bar>y\<bar> then Inl OverflowError else Inr (Finite y)))"

text \<open>The sign of a float that is not a NaN, and the product of two floats.\<close>

fun py_float_sign :: "pyfloat \<Rightarrow> int" where
  "py_float_sign (Finite x) = (if x < 0 then - 1 else if x = 0 then 0 else 1)"
| "py_float_sign PosInf = 1"
| "py_float_sign NegInf = - 1"
| "py_float_sign NaN = 0"

definition py_float_mul :: "pyfloat \<Rightarrow> pyfloat \<Rightarrow> pyfloat" where
  "py_float_mul a b =
     (case (a, b) of
        (Finite x, Finite y) \<Rightarrow> py_float_result (x * y)
      | _ \<Rightarrow>
          if a = NaN \<or> b = NaN then NaN
          else (let s = py_float_sign a * py_float_sign b
                in if s = 0 then NaN else if 0 < s then PosInf else NegInf))"

text \<open>\<^verbatim>\<open>a * d\<close> for a number \<open>a\<close> and a float \<open>d\<close>: an \<^verbatim>\<open>int\<close> is converted first.\<close>

fun py_num_mul :: "pynum \<Rightarrow> pyfloat \<Rightarrow> py_exception + pyfloat" where
  "py_num_mul (PyInt a) d = bind_exc (py_float_of_int a) (\<lambda>x. Inr (py_float_mul x d))"
| "py_num_mul (PyFloat x) d = Inr (py_float_mul x d)"

text \<open>\<^verbatim>\<open>a <= 0\<close>: false for a NaN.\<close>

fun py_num_le_zero :: "pynum \<Rightarrow> bool" where
  "py_num_le_zero (PyInt a) = (a \<le> 0)"
| "py_num_le_zero (PyFloat (Finite x)) = (x \<le> 0)"
| "py_num_le_zero (PyFloat PosInf) = False"
| "py_num_le_zero (PyFloat NegInf) = True"
| "py_num_le_zero (PyFloat NaN) = False"

text \<open>\<^verbatim>\<open>a <= b\<close> on floats and on numbers: false when a NaN is compared.\<close>

fun py_float_le :: "pyfloat \<Rightarrow> pyfloat \<Rightarrow> bool" where
  "py_float_le NaN b = False"
| "py_float_le (Finite x) NaN = False"
| "py_float_le PosInf NaN = False"
| "py_float_le NegInf NaN = False"
| "py_float_le NegInf b = True"
| "py_float_le (Finite x) PosInf = True"
| "py_float_le PosInf PosInf = True"
| "py_float_le (Finite x) (Finite y) = (x \<le> y)"
| "py_float_le (Finite x) NegInf = False"
| "py_float_le PosInf (Finite y) = False"
| "py_float_le PosInf NegInf = False"

fun py_num_le :: "pynum \<Rightarrow> pynum \<Rightarrow> bool" where
  "py_num_le (PyInt a) (PyInt b) = (a \<le> b)"
| "py_num_le (PyInt a) (PyFloat y) = py_float_le (Finite (of_int a)) y"
| "py_num_le (PyFloat x) (PyInt b) = py_float_le x (Finite (of_int b))"
| "py_num_le (PyFloat x) (PyFloat y) = py_float_le x y"

text \<open>\<^verbatim>\<open>int(x)\<close> on a float: it raises on an infinity and on a NaN.\<close>

fun py_int_of_float :: "pyfloat \<Rightarrow> py_exception + int" where
  "py_int_of_float (Finite x) = Inr (py_int x)"
| "py_int_of_float PosInf = Inl OverflowError"
| "py_int_of_float NegInf = Inl OverflowError"
| "py_int_of_float NaN = Inl ValueError"

subsection \<open>\<^verbatim>\<open>estimate_venue_capacity\<close> in binary64\<close>

text \<open>
  The constants of \<^verbatim>\<open>config.py\<close> as Python reads them: the literals \<^verbatim>\<open>0.4\<close> and
  \<^verbatim>\<open>0.67\<close> are the binary64 numbers nearest to 4/10 and 67/100, and 500 is an
  \<^verbatim>\<open>int\<close>.
\<close>

definition SAFE_DENSITY_b64 :: pyfloat where
  "SAFE_DENSITY_b64 = Finite (binary64 (4 / 10))"

definition MAX_DENSITY_b64 :: pyfloat where
  "MAX_DENSITY_b64 = Finite (binary64 (67 / 100))"

definition DEFAULT_VENUE_AREA_b64 :: pynum where
  "DEFAULT_VENUE_AREA_b64 = PyInt 500"

text \<open>
  The argument is \<^verbatim>\<open>None\<close>, an \<^verbatim>\<open>int\<close> or a \<^verbatim>\<open>float\<close>. The two capacities are
  computed in the order of the source, each as \<^verbatim>\<open>int(area_sqm * DENSITY)\<close>; the first
  exception ends the call.
\<close>

definition estimate_venue_capacity_b64 ::
  "pynum option \<Rightarrow> py_exception + pynum capacity_estimate" where
  "estimate_venue_capacity_b64 area_sqm =
     (let a = (case area_sqm of
                 None \<Rightarrow> DEFAULT_VENUE_AREA_b64
               | Some x \<Rightarrow> if py_num_le_zero x then DEFAULT_VENUE_AREA_b64 else x)
      in bind_exc (bind_exc (py_num_mul a SAFE_DENSITY_b64) py_int_of_float)
           (\<lambda>safe_cap.
              bind_exc (bind_exc (py_num_mul a MAX_DENSITY_b64) py_int_of_float)
                (\<lambda>max_cap.
                   Inr \<lparr> area = a, safe_capacity = safe_cap, max_capacity = max_cap \<rparr>)))"

subsection \<open>\<^verbatim>\<open>get_alert_status\<close> in binary64\<close>

text \<open>
  The percentage is \<^verbatim>\<open>(current_count / max_capacity) * 100\<close>: the quotient of two
  integers, rounded, times the \<^verbatim>\<open>int\<close> 100 converted to a float, rounded again; or the
  \<^verbatim>\<open>int\<close> 0. The rest is the chain of \<open>get_alert_status\<close>.
\<close>

definition get_alert_status_b64 ::
  "globals \<Rightarrow> int \<Rightarrow> int \<Rightarrow> int \<Rightarrow> py_exception + pynum alert" where
  "get_alert_status_b64 g current_count safe_cap max_cap =
     bind_exc
       (if max_cap > 0
        then bind_exc (py_int_truediv current_count max_cap)
               (\<lambda>q. bind_exc (py_float_of_int 100) (\<lambda>h. Inr (PyFloat (py_float_mul q h))))
        else Inr (PyInt 0))
       (\<lambda>pct.
          if current_count \<ge> max_cap then
            Inr \<lparr> status = ''CRITICAL'',
                  status_emoji =
                    [CHR 0xC3, CHR 0xB0, CHR 0xC5, CHR 0xB8, CHR 0xC5, CHR 0xA1, CHR 0xC2, CHR 0xA8],
                  color = ''critical'',
                  color_bgr = COLOR_CRITICAL g,
                  percentage = pct,
                  message = ''Overcrowding Detected'',
                  recommendations =
                    [''Stop all entries immediately'',
                     ''Activate emergency protocols'',
                     ''Deploy security personnel'',
                     ''Open emergency exits'',
                     ''Alert emergency services''] \<rparr>
          else if current_count \<ge> safe_cap then
            Inr \<lparr> status = ''WARNING'',
                  status_emoji =
                    [CHR 0xC3, CHR 0xA2, CHR 0xC5, CHR 0xA1, CHR 0xC2, CHR 0xA0, CHR 0xC3, CHR 0xAF,
                     CHR 0xC2, CHR 0xB8],
                  color = ''warning'',
                  color_bgr = COLOR_WARNING g,
                  percentage = pct,
                  message = ''Approaching Capacity'',
                  recommendations =
                    [''Reduce entry rate'',
                     ''Increase monitoring'',
                     ''Prepare dispersal plan'',
                     ''Alert security team'',
                     ''Monitor crowd flow''] \<rparr>
          else
            Inr \<lparr> status = ''SAFE'',
                  status_emoji = [CHR 0xC3, CHR 0xA2, CHR 0xC5, CHR 0x93, CHR 0xE2, CHR 0x80, CHR 0xA6],
                  color = ''safe'',
                  color_bgr = COLOR_SAFE g,
                  percentage = pct,
                  message = ''Normal Operations'',
                  recommendations =
                    [''Continue monitoring'',
                     ''Maintain regular checks''] \<rparr>)"

text \<open>The percentage computation of \<open>get_alert_status_b64\<close>, for the proofs.\<close>

definition percentage_b64 :: "int \<Rightarrow> int \<Rightarrow> py_exception + pynum" where
  "percentage_b64 c max_cap =
     (if max_cap > 0
      then bind_exc (py_int_truediv c max_cap)
             (\<lambda>q. bind_exc (py_float_of_int 100) (\<lambda>h. Inr (PyFloat (py_float_mul q h))))
      else Inr (PyInt 0))"

subsection \<open>\<^verbatim>\<open>count_people_in_frame\<close>\<close>

text \<open>
  A frame is a numpy array, or \<^verbatim>\<open>None\<close>; of the array the function reads the
  \<^verbatim>\<open>shape\<close> only, the pixels \<open>data\<close> are for \<^verbatim>\<open>cv2.resize\<close> and for the
  detection model. Both are code outside the repository and are parameters here:
  \<open>resize f (w, h)\<close> is \<^verbatim>\<open>cv2.resize(f, (w, h))\<close>, and \<open>model f conf iou\<close> is
  \<^verbatim>\<open>model(f, verbose=False, conf=conf, iou=iou)\<close>; either may raise. A detection result
  has \<^verbatim>\<open>boxes\<close>, which may be \<^verbatim>\<open>None\<close>; a box has the tensor \<^verbatim>\<open>cls\<close>.
\<close>

record 'p ndarray =
  shape :: "int list"
  data :: 'p

record box =
  cls :: "pyfloat list"

record detection =
  boxes :: "box list option"

type_synonym 'p resizer = "'p ndarray \<Rightarrow> int \<times> int \<Rightarrow> py_exception + 'p ndarray"
type_synonym 'p detector = "'p ndarray \<Rightarrow> rat \<Rightarrow> rat \<Rightarrow> py_exception + detection list"

text \<open>
  The inner loop \<^verbatim>\<open>for box in result.boxes\<close>, with the running \<^verbatim>\<open>person_count\<close>:
  \<^verbatim>\<open>box.cls[0]\<close> raises on an empty tensor, and \<^verbatim>\<open>int\<close> on a value that is not
  finite.
\<close>

fun count_boxes :: "globals \<Rightarrow> box list \<Rightarrow> int \<Rightarrow> py_exception + int" where
  "count_boxes g [] person_count = Inr person_count"
| "count_boxes g (b # bs) person_count =
     (case cls b of
        [] \<Rightarrow> Inl IndexError
      | c # _ \<Rightarrow>
          bind_exc (py_int_of_float c)
            (\<lambda>class_id.
               count_boxes g bs
                 (if class_id = PERSON_CLASS_ID g then person_count + 1 else person_count)))"

text \<open>The outer loop \<^verbatim>\<open>for result in results\<close>.\<close>

fun count_results :: "globals \<Rightarrow> detection list \<Rightarrow> int \<Rightarrow> py_exception + int" where
  "count_results g [] person_count = Inr person_count"
| "count_results g (result # results) person_count =
     (case boxes result of
        None \<Rightarrow> count_results g results person_count
      | Some bs \<Rightarrow>
          if length bs > 0
          then bind_exc (count_boxes g bs person_count) (count_results g results)
          else count_results g results person_count)"

text \<open>
  The first block of the \<^verbatim>\<open>try\<close>: the frame that goes to the model. Reading
  \<^verbatim>\<open>frame.shape\<close> of \<^verbatim>\<open>None\<close> raises (an \<^verbatim>\<open>AttributeError\<close>), and so does
  unpacking \<^verbatim>\<open>frame.shape[:2]\<close> into two names when the array has fewer than two
  dimensions (a \<^verbatim>\<open>ValueError\<close>). The new height is \<^verbatim>\<open>int(height * scale)\<close> in
  binary64.
\<close>

definition resize_frame :: "'p resizer \<Rightarrow> 'p ndarray option \<Rightarrow> py_exception + 'p ndarray" where
  "resize_frame resize frame =
     (case frame of
        None \<Rightarrow> Inl AttributeError
      | Some f \<Rightarrow>
          (case take 2 (shape f) of
             [height, width] \<Rightarrow>
               if width > 1280
               then bind_exc (py_int_truediv 1280 width)
                      (\<lambda>scale.
                         bind_exc (bind_exc (py_num_mul (PyInt height) scale) py_int_of_float)
                           (\<lambda>new_height.
                              let new_width = 1280
                              in resize f (new_width, new_height)))
               else Inr f
           | _ \<Rightarrow> Inl ValueError))"

text \<open>The body of the \<^verbatim>\<open>try\<close>.\<close>

definition count_people_in_frame_try ::
  "globals \<Rightarrow> 'p resizer \<Rightarrow> 'p detector \<Rightarrow> 'p ndarray option \<Rightarrow> py_exception + int" where
  "count_people_in_frame_try g resize model frame =
     bind_exc (resize_frame resize frame)
       (\<lambda>frame'. bind_exc (model frame' (25 / 100) (5 / 10))
          (\<lambda>results. count_results g results 0))"

text \<open>
  The function: \<^verbatim>\<open>except Exception\<close> turns every exception of the body into the
  count 0. (The handler also prints a line, which is no part of the value returned.)
\<close>

definition count_people_in_frame ::
  "globals \<Rightarrow> 'p resizer \<Rightarrow> 'p detector \<Rightarrow> 'p ndarray option \<Rightarrow> int" where
  "count_people_in_frame g resize model frame =
     (case count_people_in_frame_try g resize model frame of
        Inr person_count \<Rightarrow> person_count
      | Inl e \<Rightarrow> 0)"

section \<open>The alert ladder\<close>

lemma guarded_percentage:
  "(if max_cap > 0 then bind_exc (py_truediv c max_cap) (\<lambda>q. Inr (q * 100)) else Inr 0)
     = Inr (percentage_of c max_cap)"
  by (simp add: py_truediv_def percentage_of_def)

lemma get_alert_status_returns: "\<exists>r. get_alert_status g c safe_cap max_cap = Inr r"
  unfolding get_alert_status_def guarded_percentage by simp

lemma percentage_Inr:
  "get_alert_status g c safe_cap max_cap = Inr r \<Longrightarrow> percentage r = percentage_of c max_cap"
  unfolding get_alert_status_def guarded_percentage by (auto split: if_splits)

lemma status_critical:
  "get_alert_status g c safe_cap max_cap = Inr r \<Longrightarrow> max_cap \<le> c \<Longrightarrow> status r = ''CRITICAL''"
  unfolding get_alert_status_def guarded_percentage by auto







text \<open>
  C5. With \<open>safe_cap = max_cap = 0\<close> every count \<open>c \<ge> 0\<close> is CRITICAL, and the percentage
  is \<open>0\<close>; the call on \<open>(0, 0, 0)\<close> is the case \<open>c = 0\<close>.
\<close>

theorem zero_capacity_is_critical:
  assumes "0 \<le> c"
  shows "\<exists>r. get_alert_status g c 0 0 = Inr r \<and> status r = ''CRITICAL'' \<and> percentage r = 0"
proof -
  obtain r where r: "get_alert_status g c 0 0 = Inr r"
    using get_alert_status_returns by blast
  have "status r = ''CRITICAL''"
    using status_critical [OF r] assms by simp
  moreover have "percentage r = 0"
    using percentage_Inr [OF r] by (simp add: percentage_of_def)
  ultimately show ?thesis using r by blast
qed

theorem zero_capacity_is_critical_witness:
  "(\<exists>r. get_alert_status config 0 0 0 = Inr r \<and> status r = ''CRITICAL'' \<and> percentage r = 0) \<and>
   (\<exists>r. get_alert_status config 12 0 0 = Inr r \<and> status r = ''CRITICAL'' \<and> percentage r = 0)"
  using zero_capacity_is_critical [of 0 config] zero_capacity_is_critical [of 12 config]
  by simp







section \<open>The capacity estimate\<close>


lemma estimate_default:
  "area_sqm = None \<or> (\<exists>x. area_sqm = Some x \<and> x \<le> 0) \<Longrightarrow>
   estimate_venue_capacity g area_sqm =
     \<lparr> area = DEFAULT_VENUE_AREA g,
       safe_capacity = py_int (DEFAULT_VENUE_AREA g * SAFE_DENSITY g),
       max_capacity = py_int (DEFAULT_VENUE_AREA g * MAX_DENSITY g) \<rparr>"
  by (auto simp: estimate_venue_capacity_def Let_def)

lemma estimate_positive:
  "0 < x \<Longrightarrow>
   estimate_venue_capacity g (Some x) =
     \<lparr> area = x,
       safe_capacity = py_int (x * SAFE_DENSITY g),
       max_capacity = py_int (x * MAX_DENSITY g) \<rparr>"
  by (simp add: estimate_venue_capacity_def)




section \<open>Binary64 rounding\<close>

lemma powi_pos [simp]: "0 < (2::rat) powi k"
  by simp

lemma powi_not_le_0 [simp]: "\<not> (2::rat) powi k \<le> 0"
  by (simp add: not_le)

lemma bitlen_rat_bounds:
  assumes "0 < p"
  shows "(2::rat) powi (bitlen p - 1) \<le> of_int p" and "of_int p < (2::rat) powi bitlen p"
proof -
  from assms have b: "1 \<le> bitlen p"
    by (simp add: bitlen_alt_def)
  from bitlen_bounds [OF assms] have l: "2 ^ nat (bitlen p - 1) \<le> p" and u: "p < 2 ^ nat (bitlen p)"
    by simp_all
  have "(2::rat) powi (bitlen p - 1) = of_int (2 ^ nat (bitlen p - 1))"
    using b by (simp add: power_int_def)
  also have "\<dots> \<le> of_int p"
    using l by (simp only: of_int_le_iff)
  finally show "(2::rat) powi (bitlen p - 1) \<le> of_int p" .
  have "of_int p < (of_int (2 ^ nat (bitlen p)) :: rat)"
    using u by (simp only: of_int_less_iff)
  also have "\<dots> = 2 powi bitlen p"
    using b by (simp add: power_int_def)
  finally show "of_int p < (2::rat) powi bitlen p" .
qed

lemma ilog2_bounds:
  assumes "x \<noteq> 0"
  shows "2 powi ilog2 x \<le> \<bar>x\<bar>" and "\<bar>x\<bar> < 2 powi (ilog2 x + 1)"
proof -
  obtain p q where pq: "quotient_of \<bar>x\<bar> = (p, q)"
    by (cases "quotient_of \<bar>x\<bar>")
  then have q: "0 < q" and x: "\<bar>x\<bar> = of_int p / of_int q"
    by (simp_all add: quotient_of_denom_pos quotient_of_div)
  from assms have "0 < \<bar>x\<bar>" by simp
  with x q have p: "0 < p"
    by (simp add: zero_less_divide_iff)
  define d where "d = bitlen p - bitlen q"
  have lo: "(2::rat) powi (d - 1) < \<bar>x\<bar>"
  proof -
    have "(2::rat) powi (d - 1) = 2 powi (bitlen p - 1) / 2 powi bitlen q"
      by (simp add: d_def power_int_diff)
    also have "\<dots> \<le> of_int p / 2 powi bitlen q"
      using bitlen_rat_bounds(1) [OF p] by (simp add: divide_right_mono)
    also have "\<dots> < of_int p / of_int q"
      using bitlen_rat_bounds(2) [OF q] p q by (simp add: divide_strict_left_mono)
    finally show ?thesis by (simp add: x)
  qed
  have hi: "\<bar>x\<bar> < (2::rat) powi (d + 1)"
  proof -
    have "of_int p / of_int q < (2::rat) powi bitlen p / of_int q"
      using bitlen_rat_bounds(2) [OF p] q by (simp add: divide_strict_right_mono)
    also have "\<dots> \<le> 2 powi bitlen p / 2 powi (bitlen q - 1)"
      using bitlen_rat_bounds(1) [OF q] q by (simp add: divide_left_mono)
    also have "\<dots> = 2 powi (bitlen p - (bitlen q - 1))"
      by (subst power_int_diff) simp_all
    also have "\<dots> = 2 powi (d + 1)"
      by (simp add: d_def algebra_simps)
    finally show ?thesis by (simp add: x)
  qed
  have e: "ilog2 x = (if 2 powi d \<le> \<bar>x\<bar> then d else d - 1)"
    by (simp add: ilog2_def pq d_def Let_def)
  show "2 powi ilog2 x \<le> \<bar>x\<bar>"
    using lo by (simp add: e)
  show "\<bar>x\<bar> < 2 powi (ilog2 x + 1)"
    using hi by (auto simp: e)
qed

lemma powi2_le_iff: "(2::rat) powi a \<le> 2 powi b \<longleftrightarrow> a \<le> b"
proof
  assume "a \<le> b"
  then show "(2::rat) powi a \<le> 2 powi b"
    by (rule power_int_increasing) simp
next
  assume le: "(2::rat) powi a \<le> 2 powi b"
  show "a \<le> b"
  proof (rule ccontr)
    assume "\<not> a \<le> b"
    then have "b < a" by simp
    then have "(2::rat) powi b < 2 powi a"
      by (rule power_int_strict_increasing) simp
    with le show False by simp
  qed
qed

lemma powi2_less_iff: "(2::rat) powi a < 2 powi b \<longleftrightarrow> a < b"
  using powi2_le_iff [of b a] by (simp add: not_le [symmetric])

lemma ilog2_unique:
  assumes "2 powi e \<le> \<bar>x\<bar>" and "\<bar>x\<bar> < 2 powi (e + 1)"
  shows "ilog2 x = e"
proof -
  from assms(1) have nz: "x \<noteq> 0"
    by auto
  have a: "(2::rat) powi ilog2 x < 2 powi (e + 1)"
    using ilog2_bounds(1) [OF nz] assms(2) by simp
  have b: "(2::rat) powi e < 2 powi (ilog2 x + 1)"
    using ilog2_bounds(2) [OF nz] assms(1) by simp
  from a have "ilog2 x < e + 1"
    by (simp only: powi2_less_iff)
  moreover from b have "e < ilog2 x + 1"
    by (simp only: powi2_less_iff)
  ultimately show ?thesis by simp
qed

lemma ilog2_le:
  assumes "x \<noteq> 0" and "\<bar>x\<bar> \<le> 2 powi k"
  shows "ilog2 x \<le> k"
proof -
  have "(2::rat) powi ilog2 x \<le> 2 powi k"
    using ilog2_bounds(1) [OF assms(1)] assms(2) by simp
  then show ?thesis by (simp only: powi2_le_iff)
qed

lemma ilog2_less:
  assumes "x \<noteq> 0" and "\<bar>x\<bar> < 2 powi k"
  shows "ilog2 x < k"
proof -
  have "(2::rat) powi ilog2 x < 2 powi k"
    using ilog2_bounds(1) [OF assms(1)] assms(2) by simp
  then show ?thesis by (simp only: powi2_less_iff)
qed

lemma ilog2_ge:
  assumes "2 powi k \<le> \<bar>x\<bar>"
  shows "k \<le> ilog2 x"
proof -
  from assms have nz: "x \<noteq> 0"
    by auto
  have "(2::rat) powi k < 2 powi (ilog2 x + 1)"
    using ilog2_bounds(2) [OF nz] assms by simp
  then have "k < ilog2 x + 1" by (simp only: powi2_less_iff)
  then show ?thesis by simp
qed

text \<open>Rounding to the nearest integer, ties to even.\<close>

lemma round_half_even_error: "\<bar>of_int (round_half_even z) - z\<bar> \<le> 1 / 2"
proof -
  have "of_int \<lfloor>z\<rfloor> \<le> z" "z < of_int \<lfloor>z\<rfloor> + 1"
    by linarith+
  then show ?thesis
    by (auto simp: round_half_even_def Let_def abs_le_iff)
qed

lemma round_half_even_of_int [simp]: "round_half_even (of_int k) = k"
  by (simp add: round_half_even_def)

lemma round_half_even_ge:
  assumes "of_int k \<le> z"
  shows "k \<le> round_half_even z"
proof -
  from assms have "k \<le> \<lfloor>z\<rfloor>" by (simp add: le_floor_iff)
  then show ?thesis
    by (auto simp: round_half_even_def Let_def)
qed

lemma round_half_even_le:
  assumes "z \<le> of_int k"
  shows "round_half_even z \<le> k"
proof (cases "z = of_int k")
  case True
  then show ?thesis by simp
next
  case False
  with assms have "z < of_int k" by simp
  then have "\<lfloor>z\<rfloor> < k" by (simp add: floor_less_iff)
  moreover have "\<lfloor>z\<rfloor> + 1 = k \<Longrightarrow> z - of_int \<lfloor>z\<rfloor> < 1 / 2 \<or> True"
    by simp
  ultimately show ?thesis
    by (auto simp: round_half_even_def Let_def)
qed

lemma quantum_pos [simp]: "0 < quantum x"
  by (simp add: quantum_def)

lemma quantum_nonneg [simp]: "0 \<le> quantum x"
  by (rule less_imp_le) simp

lemma binary64_quantum:
  "binary64 x = (if x = 0 then 0 else of_int (round_half_even (x / quantum x)) * quantum x)"
  by (simp add: binary64_def quantum_def Let_def)

lemma binary64_error_quantum: "\<bar>binary64 x - x\<bar> \<le> quantum x / 2"
proof (cases "x = 0")
  case True
  then show ?thesis by (simp add: binary64_def)
next
  case False
  let ?q = "quantum x"
  have qnz: "?q \<noteq> 0"
    using quantum_pos [of x] by (simp del: quantum_pos)
  have "binary64 x - x = (of_int (round_half_even (x / ?q)) - x / ?q) * ?q"
    using False qnz by (simp add: binary64_quantum left_diff_distrib)
  then have "\<bar>binary64 x - x\<bar> = \<bar>of_int (round_half_even (x / ?q)) - x / ?q\<bar> * ?q"
    by (simp add: abs_mult)
  also have "\<dots> \<le> (1 / 2) * ?q"
    by (rule mult_right_mono [OF round_half_even_error]) simp
  finally show ?thesis by simp
qed

lemma binary64_error:
  assumes "2 powi (- 1022) \<le> \<bar>x\<bar>"
  shows "\<bar>binary64 x - x\<bar> \<le> \<bar>x\<bar> / 2 ^ 53"
proof -
  from assms have e: "- 1022 \<le> ilog2 x" by (rule ilog2_ge)
  from assms have nz: "x \<noteq> 0" by auto
  have "quantum x = 2 powi (ilog2 x - 52)"
    using e by (simp add: quantum_def max_def)
  also have "\<dots> = 2 powi ilog2 x / 2 ^ 52"
    by (subst power_int_diff) simp_all
  finally have q: "quantum x = 2 powi ilog2 x / 2 ^ 52" .
  have "\<bar>binary64 x - x\<bar> \<le> quantum x / 2"
    by (rule binary64_error_quantum)
  also have "\<dots> = 2 powi ilog2 x / 2 ^ 53"
    by (simp add: q)
  also have "\<dots> \<le> \<bar>x\<bar> / 2 ^ 53"
    using ilog2_bounds(1) [OF nz] by (simp add: divide_right_mono)
  finally show ?thesis .
qed

text \<open>A binary64 result never crosses a multiple of the quantum.\<close>

lemma binary64_ge_grid:
  assumes "of_int n * quantum x \<le> x"
  shows "of_int n * quantum x \<le> binary64 x"
proof (cases "x = 0")
  case True
  with assms show ?thesis by (simp add: binary64_def)
next
  case False
  from assms have "of_int n \<le> x / quantum x"
    by (simp add: pos_le_divide_eq)
  then have "n \<le> round_half_even (x / quantum x)"
    by (rule round_half_even_ge)
  then have "(of_int n :: rat) \<le> of_int (round_half_even (x / quantum x))"
    by (simp only: of_int_le_iff)
  then have "of_int n * quantum x \<le> of_int (round_half_even (x / quantum x)) * quantum x"
    by (rule mult_right_mono) simp
  with False show ?thesis by (simp add: binary64_quantum)
qed

lemma binary64_le_grid:
  assumes "x \<le> of_int n * quantum x"
  shows "binary64 x \<le> of_int n * quantum x"
proof (cases "x = 0")
  case True
  with assms show ?thesis by (simp add: binary64_def)
next
  case False
  from assms have "x / quantum x \<le> of_int n"
    by (simp add: pos_divide_le_eq)
  then have "round_half_even (x / quantum x) \<le> n"
    by (rule round_half_even_le)
  then have "(of_int (round_half_even (x / quantum x)) :: rat) \<le> of_int n"
    by (simp only: of_int_le_iff)
  then have "of_int (round_half_even (x / quantum x)) * quantum x \<le> of_int n * quantum x"
    by (rule mult_right_mono) simp
  with False show ?thesis by (simp add: binary64_quantum)
qed

lemma powi_multiple:
  assumes "j \<le> k"
  shows "(2::rat) powi k = of_int (2 ^ nat (k - j)) * 2 powi j"
proof -
  define n where "n = nat (k - j)"
  have k: "k = int n + j"
    using assms by (simp add: n_def)
  have "(2::rat) powi (int n + j) = 2 powi int n * 2 powi j"
    by (rule power_int_add) simp
  also have "\<dots> = of_int (2 ^ n) * 2 powi j"
    by simp
  finally have "(2::rat) powi (int n + j) = of_int (2 ^ n) * 2 powi j" .
  then have "(2::rat) powi k = of_int (2 ^ n) * 2 powi j"
    by (simp only: k [symmetric])
  then show ?thesis
    by (simp only: n_def)
qed

lemma binary64_abs_le:
  assumes "\<bar>x\<bar> \<le> 2 powi k" and "- 1074 \<le> k"
  shows "\<bar>binary64 x\<bar> \<le> 2 powi k"
proof (cases "x = 0")
  case True
  then show ?thesis by (simp add: binary64_def less_imp_le)
next
  case False
  define j where "j = max (ilog2 x) (- 1022) - 52"
  have "ilog2 x \<le> k"
    using False assms(1) by (rule ilog2_le)
  with assms(2) have "j \<le> k"
    by (simp add: j_def)
  then have m: "(2::rat) powi k = of_int (2 ^ nat (k - j)) * quantum x"
    unfolding quantum_def j_def [symmetric] by (rule powi_multiple)
  have m': "- ((2::rat) powi k) = of_int (- (2 ^ nat (k - j))) * quantum x"
    by (simp add: m)
  from assms(1) have "x \<le> 2 powi k" and "- (2 powi k) \<le> x"
    by (simp_all add: abs_le_iff)
  then have "binary64 x \<le> 2 powi k" and "- (2 powi k) \<le> binary64 x"
    using binary64_le_grid [of x "2 ^ nat (k - j)"] binary64_ge_grid [of "- (2 ^ nat (k - j))" x]
    by (simp_all only: m [symmetric] m' [symmetric])
  then show ?thesis by (simp add: abs_le_iff)
qed

lemma int_multiple:
  assumes "j \<le> 0"
  shows "(of_int n :: rat) = of_int (n * 2 ^ nat (- j)) * 2 powi j"
proof -
  have "(2::rat) powi 0 = of_int (2 ^ nat (0 - j)) * 2 powi j"
    using assms by (rule powi_multiple)
  then have "(1::rat) = of_int (2 ^ nat (- j)) * 2 powi j"
    by simp
  then have "(of_int n :: rat) = of_int n * (of_int (2 ^ nat (- j)) * 2 powi j)"
    by simp
  then show ?thesis by (simp add: mult.assoc)
qed

lemma quantum_small:
  assumes "\<bar>x\<bar> < 2 ^ 53"
  shows "\<exists>j\<le>0. quantum x = 2 powi j"
proof (cases "x = 0")
  case True
  have "max (ilog2 (0::rat)) (- 1022) - 52 \<le> 0 \<or> True" by simp
  show ?thesis
  proof (cases "ilog2 x \<le> - 1022")
    case True
    then show ?thesis by (intro exI [of _ "- 1074"]) (simp add: quantum_def max_def)
  next
    case False
    have "ilog2 x = ilog2 0" using \<open>x = 0\<close> by simp
    also have "\<dots> \<le> 0" by code_simp
    finally have "max (ilog2 x) (- 1022) - 52 \<le> 0" by simp
    then show ?thesis by (intro exI [of _ "max (ilog2 x) (- 1022) - 52"]) (simp add: quantum_def)
  qed
next
  case False
  have "\<bar>x\<bar> < 2 powi 53" using assms by simp
  with False have "ilog2 x < 53" by (rule ilog2_less)
  then have "max (ilog2 x) (- 1022) - 52 \<le> 0" by simp
  then show ?thesis by (intro exI [of _ "max (ilog2 x) (- 1022) - 52"]) (simp add: quantum_def)
qed

lemma binary64_ge_int:
  assumes "of_int n \<le> x" and "\<bar>x\<bar> < 2 ^ 53"
  shows "of_int n \<le> binary64 x"
proof -
  from quantum_small [OF assms(2)] obtain j where j: "j \<le> 0" and q: "quantum x = 2 powi j"
    by blast
  have n: "(of_int n :: rat) = of_int (n * 2 ^ nat (- j)) * quantum x"
    unfolding q using j by (rule int_multiple)
  from assms(1) show ?thesis
    using binary64_ge_grid [of "n * 2 ^ nat (- j)" x] by (simp only: n [symmetric])
qed

lemma binary64_le_int:
  assumes "x \<le> of_int n" and "\<bar>x\<bar> < 2 ^ 53"
  shows "binary64 x \<le> of_int n"
proof -
  from quantum_small [OF assms(2)] obtain j where j: "j \<le> 0" and q: "quantum x = 2 powi j"
    by blast
  have n: "(of_int n :: rat) = of_int (n * 2 ^ nat (- j)) * quantum x"
    unfolding q using j by (rule int_multiple)
  from assms(1) show ?thesis
    using binary64_le_grid [of x "n * 2 ^ nat (- j)"] by (simp only: n [symmetric])
qed

lemma binary64_of_int:
  assumes "\<bar>k\<bar> < 2 ^ 53"
  shows "binary64 (of_int k) = of_int k"
proof -
  have "(of_int \<bar>k\<bar> :: rat) < of_int (2 ^ 53)"
    using assms by (simp only: of_int_less_iff)
  then have "\<bar>of_int k :: rat\<bar> < 2 ^ 53"
    by simp
  then have "of_int k \<le> binary64 (of_int k)" and "binary64 (of_int k) \<le> of_int k"
    using binary64_ge_int [of k "of_int k"] binary64_le_int [of "of_int k" k] by simp_all
  then show ?thesis by simp
qed

lemma binary64_ge_powi:
  assumes "2 powi k \<le> x" and "- 1074 \<le> k"
  shows "2 powi k \<le> binary64 x"
proof -
  have x0: "0 < x"
    by (rule less_le_trans [OF powi_pos assms(1)])
  then have ax: "2 powi k \<le> \<bar>x\<bar>" using assms(1) by simp
  then have e: "k \<le> ilog2 x" by (rule ilog2_ge)
  define j where "j = max (ilog2 x) (- 1022) - 52"
  have "j \<le> ilog2 x" using e assms(2) by (simp add: j_def)
  then have m: "(2::rat) powi ilog2 x = of_int (2 ^ nat (ilog2 x - j)) * quantum x"
    unfolding quantum_def j_def [symmetric] by (rule powi_multiple)
  have "2 powi ilog2 x \<le> x"
    using ilog2_bounds(1) [of x] x0 by simp
  then have "2 powi ilog2 x \<le> binary64 x"
    using binary64_ge_grid [of "2 ^ nat (ilog2 x - j)" x] by (simp only: m [symmetric])
  moreover have "(2::rat) powi k \<le> 2 powi ilog2 x"
    using e by (simp only: powi2_le_iff)
  ultimately show ?thesis by simp
qed

lemma binary64_nonneg:
  assumes "0 \<le> x"
  shows "0 \<le> binary64 x"
  using binary64_ge_grid [of 0 x] assms by simp

lemma round_half_even_mono:
  assumes "z \<le> w"
  shows "round_half_even z \<le> round_half_even w"
proof (cases "of_int (round_half_even z) \<le> w")
  case True
  then show ?thesis by (rule round_half_even_ge)
next
  case False
  define k where "k = round_half_even z"
  from False have wk: "w < of_int k" by (simp add: k_def)
  have "\<bar>of_int k - z\<bar> \<le> 1 / 2"
    unfolding k_def by (rule round_half_even_error)
  then have zk: "of_int k - 1 / 2 \<le> z" by linarith
  have fl: "\<lfloor>w\<rfloor> = k - 1"
    using wk zk assms by (intro floor_unique) simp_all
  show ?thesis
  proof (cases "w = z")
    case True
    then show ?thesis by simp
  next
    case False
    with assms have "z < w" by simp
    with zk have "1 / 2 < w - of_int (k - 1)" by simp
    then have "round_half_even w = k"
      by (simp add: round_half_even_def fl Let_def)
    then show ?thesis by (simp add: k_def)
  qed
qed

lemma binary64_nonpos:
  assumes "x \<le> 0"
  shows "binary64 x \<le> 0"
  using binary64_le_grid [of x 0] assms by simp

lemma binary64_le_neg_powi:
  assumes "x \<le> - (2 powi k)" and "- 1074 \<le> k"
  shows "binary64 x \<le> - (2 powi k)"
proof -
  have "- x \<ge> 2 powi k" using assms(1) by simp
  then have x0: "x < 0"
    using powi_pos [of k] by linarith
  then have ax: "2 powi k \<le> \<bar>x\<bar>" using assms(1) by simp
  then have e: "k \<le> ilog2 x" by (rule ilog2_ge)
  define j where "j = max (ilog2 x) (- 1022) - 52"
  have "j \<le> ilog2 x" using e assms(2) by (simp add: j_def)
  then have "(2::rat) powi ilog2 x = of_int (2 ^ nat (ilog2 x - j)) * quantum x"
    unfolding quantum_def j_def [symmetric] by (rule powi_multiple)
  then have m: "- ((2::rat) powi ilog2 x) = of_int (- (2 ^ nat (ilog2 x - j))) * quantum x"
    by simp
  have "2 powi ilog2 x \<le> \<bar>x\<bar>"
    using ilog2_bounds(1) [of x] x0 by simp
  then have "x \<le> - (2 powi ilog2 x)"
    using x0 by simp
  then have "binary64 x \<le> - (2 powi ilog2 x)"
    using binary64_le_grid [of x "- (2 ^ nat (ilog2 x - j))"] by (simp only: m [symmetric])
  moreover have "(2::rat) powi k \<le> 2 powi ilog2 x"
    using e by (simp only: powi2_le_iff)
  ultimately show ?thesis by simp
qed

text \<open>Rounding to binary64 keeps the order.\<close>

lemma binary64_mono:
  assumes "x \<le> y"
  shows "binary64 x \<le> binary64 y"
proof -
  consider "x \<le> 0" "0 \<le> y" | "0 < x" | "y < 0"
    using assms by linarith
  then show ?thesis
  proof cases
    case 1
    then have "binary64 x \<le> 0" and "0 \<le> binary64 y"
      by (simp_all add: binary64_nonpos binary64_nonneg)
    then show ?thesis by simp
  next
    case 2
    with assms have y0: "0 < y" by simp
    from 2 y0 have nz: "x \<noteq> 0" "y \<noteq> 0" by simp_all
    have "\<bar>x\<bar> \<le> \<bar>y\<bar>" using 2 assms by simp
    have exy: "ilog2 x \<le> ilog2 y"
    proof -
      have "2 powi ilog2 x \<le> \<bar>x\<bar>" using nz(1) by (rule ilog2_bounds(1))
      also have "\<bar>x\<bar> \<le> \<bar>y\<bar>" by fact
      finally show ?thesis by (rule ilog2_ge)
    qed
    show ?thesis
    proof (cases "max (ilog2 x) (- 1022) = max (ilog2 y) (- 1022)")
      case True
      then have q: "quantum x = quantum y" by (simp add: quantum_def)
      have "x / quantum y \<le> y / quantum y"
        using assms by (rule divide_right_mono) simp
      then have "round_half_even (x / quantum y) \<le> round_half_even (y / quantum y)"
        by (rule round_half_even_mono)
      then have "(of_int (round_half_even (x / quantum y)) :: rat)
          \<le> of_int (round_half_even (y / quantum y))"
        by (simp only: of_int_le_iff)
      then have "of_int (round_half_even (x / quantum y)) * quantum y
          \<le> of_int (round_half_even (y / quantum y)) * quantum y"
        by (rule mult_right_mono) simp
      then show ?thesis
        using nz by (simp add: binary64_quantum q)
    next
      case False
      with exy have lt: "ilog2 x < ilog2 y" and big: "- 1022 < ilog2 y"
        by (simp_all add: max_def split: if_splits)
      define k where "k = max (ilog2 x + 1) (- 1074)"
      have ky: "k \<le> ilog2 y" using lt big by (simp add: k_def)
      have "\<bar>x\<bar> < 2 powi (ilog2 x + 1)" using nz(1) by (rule ilog2_bounds(2))
      also have "(2::rat) powi (ilog2 x + 1) \<le> 2 powi k"
        by (simp only: powi2_le_iff) (simp add: k_def)
      finally have "\<bar>x\<bar> \<le> 2 powi k" by simp
      then have "\<bar>binary64 x\<bar> \<le> 2 powi k"
        by (rule binary64_abs_le) (simp add: k_def)
      then have "binary64 x \<le> 2 powi k" by simp
      also have "(2::rat) powi k \<le> 2 powi ilog2 y"
        using ky by (simp only: powi2_le_iff)
      also have "2 powi ilog2 y \<le> binary64 y"
      proof (rule binary64_ge_powi)
        show "2 powi ilog2 y \<le> y"
          using ilog2_bounds(1) [OF nz(2)] y0 by simp
        show "- 1074 \<le> ilog2 y" using big by simp
      qed
      finally show ?thesis .
    qed
  next
    case 3
    with assms have x0: "x < 0" by simp
    from 3 x0 have nz: "x \<noteq> 0" "y \<noteq> 0" by simp_all
    have "\<bar>y\<bar> \<le> \<bar>x\<bar>" using 3 assms by simp
    have eyx: "ilog2 y \<le> ilog2 x"
    proof -
      have "2 powi ilog2 y \<le> \<bar>y\<bar>" using nz(2) by (rule ilog2_bounds(1))
      also have "\<bar>y\<bar> \<le> \<bar>x\<bar>" by fact
      finally show ?thesis by (rule ilog2_ge)
    qed
    show ?thesis
    proof (cases "max (ilog2 x) (- 1022) = max (ilog2 y) (- 1022)")
      case True
      then have q: "quantum x = quantum y" by (simp add: quantum_def)
      have "x / quantum y \<le> y / quantum y"
        using assms by (rule divide_right_mono) simp
      then have "round_half_even (x / quantum y) \<le> round_half_even (y / quantum y)"
        by (rule round_half_even_mono)
      then have "(of_int (round_half_even (x / quantum y)) :: rat)
          \<le> of_int (round_half_even (y / quantum y))"
        by (simp only: of_int_le_iff)
      then have "of_int (round_half_even (x / quantum y)) * quantum y
          \<le> of_int (round_half_even (y / quantum y)) * quantum y"
        by (rule mult_right_mono) simp
      then show ?thesis
        using nz by (simp add: binary64_quantum q)
    next
      case False
      with eyx have lt: "ilog2 y < ilog2 x" and big: "- 1022 < ilog2 x"
        by (simp_all add: max_def split: if_splits)
      define k where "k = max (ilog2 y + 1) (- 1074)"
      have kx: "k \<le> ilog2 x" using lt big by (simp add: k_def)
      have "x \<le> - (2 powi ilog2 x)"
        using ilog2_bounds(1) [OF nz(1)] x0 by simp
      then have "binary64 x \<le> - (2 powi ilog2 x)"
        by (rule binary64_le_neg_powi) (use big in simp)
      also have "- ((2::rat) powi ilog2 x) \<le> - (2 powi k)"
        using kx by (simp only: neg_le_iff_le powi2_le_iff)
      also have "- (2 powi k) \<le> binary64 y"
      proof -
        have "\<bar>y\<bar> < 2 powi (ilog2 y + 1)" using nz(2) by (rule ilog2_bounds(2))
        also have "(2::rat) powi (ilog2 y + 1) \<le> 2 powi k"
          by (simp only: powi2_le_iff) (simp add: k_def)
        finally have "\<bar>y\<bar> \<le> 2 powi k" by simp
        then have "\<bar>binary64 y\<bar> \<le> 2 powi k"
          by (rule binary64_abs_le) (simp add: k_def)
        then show ?thesis by (simp add: abs_le_iff)
      qed
      finally show ?thesis .
    qed
  qed
qed

section \<open>Python arithmetic in binary64\<close>

lemma SAFE_DENSITY_value: "binary64 (4 / 10) = 3602879701896397 / 9007199254740992"
  by code_simp

lemma MAX_DENSITY_value: "binary64 (67 / 100) = 6034823500676465 / 9007199254740992"
  by code_simp

lemma py_float_mul_Finite [simp]:
  "py_float_mul (Finite x) (Finite y) = py_float_result (x * y)"
  by (simp add: py_float_mul_def)

lemma py_float_result_finite:
  assumes "\<bar>x\<bar> \<le> 2 powi k" and "- 1074 \<le> k" and "k \<le> 1023"
  shows "py_float_result x = Finite (binary64 x)"
proof -
  have "\<bar>binary64 x\<bar> \<le> 2 powi k"
    using assms(1,2) by (rule binary64_abs_le)
  also have "(2::rat) powi k \<le> 2 powi 1023"
    using assms(3) by (simp only: powi2_le_iff)
  also have "\<dots> < 2 ^ 1024"
    by simp
  finally have "\<bar>binary64 x\<bar> < 2 ^ 1024" .
  then have "\<not> 2 ^ 1024 \<le> binary64 x" and "\<not> binary64 x \<le> - (2 ^ 1024)"
    by (simp_all add: abs_less_iff)
  then show ?thesis
    by (simp add: py_float_result_def Let_def)
qed

lemma abs_binary64_below:
  assumes "\<bar>x\<bar> \<le> 2 powi k" and "- 1074 \<le> k" and "k \<le> 1023"
  shows "\<not> 2 ^ 1024 \<le> \<bar>binary64 x\<bar>"
proof -
  have "\<bar>binary64 x\<bar> \<le> 2 powi k"
    using assms(1,2) by (rule binary64_abs_le)
  also have "(2::rat) powi k \<le> 2 powi 1023"
    using assms(3) by (simp only: powi2_le_iff)
  also have "\<dots> < 2 ^ 1024"
    by simp
  finally show ?thesis by simp
qed

lemma py_float_of_int_returns:
  assumes "\<bar>a\<bar> < 2 ^ 1023"
  shows "py_float_of_int a = Inr (Finite (binary64 (of_int a)))"
proof -
  have "(of_int \<bar>a\<bar> :: rat) < of_int (2 ^ 1023)"
    using assms by (simp only: of_int_less_iff)
  then have "\<bar>of_int a :: rat\<bar> \<le> 2 powi 1023"
    by simp
  then have "\<not> 2 ^ 1024 \<le> \<bar>binary64 (of_int a)\<bar>"
    by (rule abs_binary64_below) simp_all
  then show ?thesis
    by (simp add: py_float_of_int_def Let_def)
qed

lemma py_float_of_int_exact:
  assumes "\<bar>a\<bar> < 2 ^ 53"
  shows "py_float_of_int a = Inr (Finite (of_int a))"
proof -
  from assms have "\<bar>a\<bar> < 2 ^ 1023"
    by (rule less_trans) simp
  then show ?thesis
    by (simp add: py_float_of_int_returns binary64_of_int [OF assms])
qed

lemma py_float_of_int_100 [simp]: "py_float_of_int 100 = Inr (Finite 100)"
  using py_float_of_int_exact [of 100] by simp

lemma abs_quotient_le:
  assumes "b \<noteq> 0"
  shows "\<bar>of_int a / of_int b :: rat\<bar> \<le> \<bar>of_int a\<bar>"
proof -
  from assms have "1 \<le> \<bar>b\<bar>" by simp
  then have "(of_int 1 :: rat) \<le> of_int \<bar>b\<bar>"
    by (simp only: of_int_le_iff)
  then have b: "(1::rat) \<le> \<bar>of_int b\<bar>" by simp
  have "\<bar>of_int a / of_int b :: rat\<bar> = \<bar>of_int a\<bar> / \<bar>of_int b\<bar>"
    by simp
  also have "\<dots> \<le> \<bar>of_int a\<bar> / 1"
    using b by (intro divide_left_mono) simp_all
  finally show ?thesis by simp
qed

lemma py_int_truediv_returns:
  assumes "b \<noteq> 0" and "\<bar>a\<bar> < 2 ^ 1023"
  shows "py_int_truediv a b = Inr (Finite (binary64 (of_int a / of_int b)))"
proof -
  have "(of_int \<bar>a\<bar> :: rat) < of_int (2 ^ 1023)"
    using assms(2) by (simp only: of_int_less_iff)
  then have "\<bar>of_int a :: rat\<bar> \<le> 2 powi 1023"
    by simp
  with abs_quotient_le [OF assms(1), of a] have "\<bar>of_int a / of_int b :: rat\<bar> \<le> 2 powi 1023"
    by (rule order_trans)
  then have "\<not> 2 ^ 1024 \<le> \<bar>binary64 (of_int a / of_int b)\<bar>"
    by (rule abs_binary64_below) simp_all
  then show ?thesis
    using assms(1) by (simp add: py_int_truediv_def Let_def)
qed

section \<open>The alert in binary64\<close>

lemma percentage_b64_guard: "max_cap \<le> 0 \<Longrightarrow> percentage_b64 c max_cap = Inr (PyInt 0)"
  by (simp add: percentage_b64_def)

lemma percentage_b64_division:
  assumes "0 < max_cap"
  shows "percentage_b64 c max_cap =
           (if 2 ^ 1024 \<le> \<bar>binary64 (of_int c / of_int max_cap)\<bar> then Inl OverflowError
            else Inr (PyFloat (py_float_result (binary64 (of_int c / of_int max_cap) * 100))))"
  using assms by (simp add: percentage_b64_def py_int_truediv_def Let_def)

lemma get_alert_status_b64_raises:
  "percentage_b64 c max_cap = Inl e \<Longrightarrow> get_alert_status_b64 g c safe_cap max_cap = Inl e"
  unfolding get_alert_status_b64_def percentage_b64_def [symmetric] by simp

lemma get_alert_status_b64_returns:
  assumes "percentage_b64 c max_cap = Inr p"
  shows "\<exists>r. get_alert_status_b64 g c safe_cap max_cap = Inr r \<and> percentage r = p \<and>
           status r =
             (if max_cap \<le> c then ''CRITICAL'' else if safe_cap \<le> c then ''WARNING'' else ''SAFE'') \<and>
           recommendations r \<noteq> []"
  unfolding get_alert_status_b64_def percentage_b64_def [symmetric] assms by simp

text \<open>Two roundings: the quotient, then the product with 100.\<close>

lemma two_roundings:
  assumes "2 powi (- 1000) \<le> x" and "x \<le> 2 powi 1000"
  shows "py_float_result (binary64 x * 100) = Finite (binary64 (binary64 x * 100))"
    and "\<bar>binary64 (binary64 x * 100) - 100 * x\<bar> \<le> 100 * x / 2 ^ 51"
    and "\<not> 2 ^ 1024 \<le> \<bar>binary64 x\<bar>"
proof -
  have x0: "0 < x"
    using assms(1) powi_pos [of "- 1000"] by (simp del: powi_pos)
  have lo: "(2::rat) powi (- 1022) \<le> 2 powi (- 1000)"
    by (simp only: powi2_le_iff)
  have ax: "\<bar>x\<bar> \<le> 2 powi 1000"
    using assms(2) x0 by simp
  show "\<not> 2 ^ 1024 \<le> \<bar>binary64 x\<bar>"
    using ax by (rule abs_binary64_below) simp_all
  have e1: "\<bar>binary64 x - x\<bar> \<le> \<bar>x\<bar> / 2 ^ 53"
    by (rule binary64_error) (use assms(1) lo x0 in simp)
  from e1 have "binary64 x - x \<le> \<bar>x\<bar> / 2 ^ 53" and "x - binary64 x \<le> \<bar>x\<bar> / 2 ^ 53"
    by linarith+
  then have e1a: "binary64 x - x \<le> x / 9007199254740992"
    and e1b: "x - binary64 x \<le> x / 9007199254740992"
    using x0 by simp_all
  define y where "y = binary64 x * 100"
  have y_lo: "x \<le> y" and y_hi: "y \<le> 128 * x"
    unfolding y_def using e1a e1b x0 by linarith+
  have y0: "0 < y"
    using x0 y_lo by simp
  have "(2::rat) powi (- 1022) \<le> \<bar>y\<bar>"
    using lo assms(1) y_lo x0 by simp
  then have e2: "\<bar>binary64 y - y\<bar> \<le> \<bar>y\<bar> / 2 ^ 53"
    by (rule binary64_error)
  from e2 have "binary64 y - y \<le> \<bar>y\<bar> / 2 ^ 53" and "y - binary64 y \<le> \<bar>y\<bar> / 2 ^ 53"
    by linarith+
  then have e2a: "binary64 y - y \<le> y / 9007199254740992"
    and e2b: "y - binary64 y \<le> y / 9007199254740992"
    using y0 by simp_all
  have "128 * (2::rat) powi 1000 = 2 powi 7 * 2 powi 1000"
    by simp
  also have "\<dots> = 2 powi (7 + 1000)"
    by (rule power_int_add [symmetric]) simp
  finally have p: "128 * (2::rat) powi 1000 = 2 powi 1007"
    by simp
  have "\<bar>y\<bar> \<le> 128 * 2 powi 1000"
    using y_lo y_hi x0 assms(2) by simp
  then have ay: "\<bar>y\<bar> \<le> 2 powi 1007"
    by (simp only: p)
  show "py_float_result (binary64 x * 100) = Finite (binary64 (binary64 x * 100))"
    unfolding y_def [symmetric] using ay by (rule py_float_result_finite) simp_all
  have "binary64 y - 100 * x \<le> 100 * x / 2251799813685248"
    and "100 * x - binary64 y \<le> 100 * x / 2251799813685248"
    using e1a e1b e2a e2b x0 unfolding y_def by linarith+
  then have "\<bar>binary64 y - 100 * x\<bar> \<le> 100 * x / 2251799813685248"
    by linarith
  then show "\<bar>binary64 (binary64 x * 100) - 100 * x\<bar> \<le> 100 * x / 2 ^ 51"
    unfolding y_def by simp
qed

text \<open>
  Whenever the binary64 function returns, the exact one returns an alert that differs in
  the percentage only.
\<close>

lemma exact_reading_agrees:
  assumes "get_alert_status_b64 g c safe_cap max_cap = Inr r'"
  shows "\<exists>r. get_alert_status g c safe_cap max_cap = Inr r \<and>
           status r = status r' \<and> status_emoji r = status_emoji r' \<and> color r = color r' \<and>
           color_bgr r = color_bgr r' \<and> message r = message r' \<and>
           recommendations r = recommendations r'"
proof (cases "percentage_b64 c max_cap")
  case (Inl e)
  from get_alert_status_b64_raises [OF this] assms show ?thesis by simp
next
  case (Inr p)
  with assms show ?thesis
    unfolding get_alert_status_b64_def percentage_b64_def [symmetric]
      get_alert_status_def guarded_percentage
    by (auto split: if_splits)
qed

lemma percentage_b64_bounded:
  assumes "0 < max_cap" and "max_cap < 2 ^ 1000" and "0 \<le> c" and "c < 2 ^ 1000"
  shows "\<exists>p. percentage_b64 c max_cap = Inr (PyFloat (Finite p)) \<and>
           p = binary64 (binary64 (of_int c / of_int max_cap) * 100) \<and>
           \<bar>p - 100 * of_int c / of_int max_cap\<bar> \<le> (100 * of_int c / of_int max_cap) / 2 ^ 51"
proof (cases "c = 0")
  case True
  have "py_float_result 0 = Finite 0"
    by (simp add: py_float_result_def binary64_def)
  then show ?thesis
    using assms(1) True by (simp add: percentage_b64_division binary64_def)
next
  case False
  define x :: rat where "x = of_int c / of_int max_cap"
  have m: "(0::rat) < of_int max_cap"
    using assms(1) by simp
  have "(of_int max_cap :: rat) < of_int (2 ^ 1000)"
    using assms(2) by (simp only: of_int_less_iff)
  then have m': "(of_int max_cap :: rat) \<le> 2 ^ 1000"
    by simp
  from False assms(3) have "1 \<le> c" by simp
  then have c1: "(1::rat) \<le> of_int c" by simp
  have "(of_int c :: rat) < of_int (2 ^ 1000)"
    using assms(4) by (simp only: of_int_less_iff)
  then have c2: "(of_int c :: rat) \<le> 2 ^ 1000"
    by simp
  have "(2::rat) powi (- 1000) = 1 / 2 ^ 1000"
    by (simp add: power_int_minus field_simps)
  also have "\<dots> \<le> 1 / of_int max_cap"
    using m m' by (intro divide_left_mono) simp_all
  also have "\<dots> \<le> x"
    unfolding x_def using c1 m by (intro divide_right_mono) simp_all
  finally have lo: "2 powi (- 1000) \<le> x" .
  have "1 \<le> max_cap" using assms(1) by simp
  then have "(1::rat) \<le> of_int max_cap" by simp
  then have "x \<le> of_int c / 1"
    unfolding x_def using c1 by (intro divide_left_mono) simp_all
  with c2 have hi: "x \<le> 2 powi 1000" by simp
  note r = two_roundings [OF lo hi]
  have "percentage_b64 c max_cap = Inr (PyFloat (Finite (binary64 (binary64 x * 100))))"
    using r(1,3) assms(1) by (simp add: percentage_b64_division x_def)
  moreover have "\<bar>binary64 (binary64 x * 100) - 100 * of_int c / of_int max_cap\<bar>
      \<le> (100 * of_int c / of_int max_cap) / 2 ^ 51"
    using r(2) by (simp add: x_def)
  ultimately show ?thesis by (simp add: x_def)
qed

lemma percentage_b64_multiple:
  assumes "0 < max_cap" and "\<bar>k\<bar> < 2 ^ 46"
  shows "percentage_b64 (k * max_cap) max_cap = Inr (PyFloat (Finite (100 * of_int k)))"
proof -
  have q: "(of_int (k * max_cap) / of_int max_cap :: rat) = of_int k"
    using assms(1) by simp
  from assms(2) have k53: "\<bar>k\<bar> < 2 ^ 53"
    by (rule less_trans) simp
  have b: "binary64 (of_int k) = of_int k"
    using k53 by (rule binary64_of_int)
  have "\<bar>k\<bar> * 100 < 2 ^ 46 * 100"
    using assms(2) by simp
  then have "\<bar>k * 100\<bar> < 2 ^ 53"
    by (simp add: abs_mult)
  then have b': "binary64 (of_int (k * 100)) = of_int (k * 100)"
    by (rule binary64_of_int)
  have "(of_int \<bar>k\<bar> :: rat) < of_int (2 ^ 53)"
    using k53 by (simp only: of_int_less_iff)
  then have small: "\<bar>of_int k :: rat\<bar> < 2 ^ 1024"
    by simp
  have "(of_int \<bar>k * 100\<bar> :: rat) < of_int (2 ^ 53)"
    using \<open>\<bar>k * 100\<bar> < 2 ^ 53\<close> by (simp only: of_int_less_iff)
  then have "\<bar>of_int (k * 100) :: rat\<bar> \<le> 2 powi 53"
    by simp
  then have "py_float_result (of_int (k * 100)) = Finite (binary64 (of_int (k * 100)))"
    by (rule py_float_result_finite) simp_all
  then have "py_float_result (of_int k * 100) = Finite (100 * of_int k)"
    using b' by (simp add: mult.commute)
  then show ?thesis
    using assms(1) small by (simp add: percentage_b64_division q b)
qed

text \<open>
  C2, as the code has it. With \<open>max_cap \<le> 0\<close> no division is evaluated: the call returns, and
  the percentage is the integer 0. With \<open>max_cap > 0\<close> the call raises
  \<^verbatim>\<open>OverflowError\<close> or returns, in every branch, the percentage computed in binary64:
  the quotient \<open>c / max_cap\<close> rounded to the nearest float, times 100, rounded again. For
  \<open>0 \<le> c < 2 ^ 1000\<close> and \<open>0 < max_cap < 2 ^ 1000\<close> the call returns, and that float is
  within \<open>2 ^ - 51\<close> of \<open>100 * c / max_cap\<close>, relatively; it is \<open>100 * k\<close> exactly when the
  count is \<open>k\<close> times \<open>max_cap\<close>, \<open>\<bar>k\<bar> < 2 ^ 46\<close>.
\<close>

theorem get_alert_status_b64_percentage:
  "(max_cap \<le> 0 \<longrightarrow>
      (\<exists>r. get_alert_status_b64 g c safe_cap max_cap = Inr r \<and> percentage r = PyInt 0)) \<and>
   (0 < max_cap \<longrightarrow>
      get_alert_status_b64 g c safe_cap max_cap = Inl OverflowError \<or>
      (\<exists>r. get_alert_status_b64 g c safe_cap max_cap = Inr r \<and>
           percentage r =
             PyFloat (py_float_result (binary64 (of_int c / of_int max_cap) * 100)))) \<and>
   (0 < max_cap \<and> max_cap < 2 ^ 1000 \<and> 0 \<le> c \<and> c < 2 ^ 1000 \<longrightarrow>
      (\<exists>r p. get_alert_status_b64 g c safe_cap max_cap = Inr r \<and>
             percentage r = PyFloat (Finite p) \<and>
             p = binary64 (binary64 (of_int c / of_int max_cap) * 100) \<and>
             \<bar>p - 100 * of_int c / of_int max_cap\<bar>
               \<le> (100 * of_int c / of_int max_cap) / 2 ^ 51)) \<and>
   (0 < max_cap \<and> \<bar>k\<bar> < 2 ^ 46 \<longrightarrow>
      (\<exists>r. get_alert_status_b64 g (k * max_cap) safe_cap max_cap = Inr r \<and>
           percentage r = PyFloat (Finite (100 * of_int k))))"
proof (intro conjI impI)
  assume "max_cap \<le> 0"
  then have "percentage_b64 c max_cap = Inr (PyInt 0)"
    by (rule percentage_b64_guard)
  from get_alert_status_b64_returns [OF this]
  show "\<exists>r. get_alert_status_b64 g c safe_cap max_cap = Inr r \<and> percentage r = PyInt 0"
    by blast
next
  assume m: "0 < max_cap"
  show "get_alert_status_b64 g c safe_cap max_cap = Inl OverflowError \<or>
      (\<exists>r. get_alert_status_b64 g c safe_cap max_cap = Inr r \<and>
           percentage r =
             PyFloat (py_float_result (binary64 (of_int c / of_int max_cap) * 100)))"
  proof (cases "2 ^ 1024 \<le> \<bar>binary64 (of_int c / of_int max_cap)\<bar>")
    case True
    then have "percentage_b64 c max_cap = Inl OverflowError"
      using m by (simp add: percentage_b64_division)
    then show ?thesis
      by (simp add: get_alert_status_b64_raises)
  next
    case False
    then have "percentage_b64 c max_cap =
        Inr (PyFloat (py_float_result (binary64 (of_int c / of_int max_cap) * 100)))"
      using m by (simp add: percentage_b64_division)
    from get_alert_status_b64_returns [OF this] show ?thesis
      by blast
  qed
next
  assume "0 < max_cap \<and> max_cap < 2 ^ 1000 \<and> 0 \<le> c \<and> c < 2 ^ 1000"
  then have "0 < max_cap" "max_cap < 2 ^ 1000" "0 \<le> c" "c < 2 ^ 1000"
    by simp_all
  from percentage_b64_bounded [OF this] obtain p
    where p: "percentage_b64 c max_cap = Inr (PyFloat (Finite p))"
      and v: "p = binary64 (binary64 (of_int c / of_int max_cap) * 100)"
      and e: "\<bar>p - 100 * of_int c / of_int max_cap\<bar> \<le> (100 * of_int c / of_int max_cap) / 2 ^ 51"
    by blast
  from get_alert_status_b64_returns [OF p] obtain r
    where "get_alert_status_b64 g c safe_cap max_cap = Inr r" and "percentage r = PyFloat (Finite p)"
    by blast
  with v e show "\<exists>r p. get_alert_status_b64 g c safe_cap max_cap = Inr r \<and>
      percentage r = PyFloat (Finite p) \<and>
      p = binary64 (binary64 (of_int c / of_int max_cap) * 100) \<and>
      \<bar>p - 100 * of_int c / of_int max_cap\<bar> \<le> (100 * of_int c / of_int max_cap) / 2 ^ 51"
    by blast
next
  assume "0 < max_cap \<and> \<bar>k\<bar> < 2 ^ 46"
  then have "percentage_b64 (k * max_cap) max_cap = Inr (PyFloat (Finite (100 * of_int k)))"
    by (simp add: percentage_b64_multiple)
  from get_alert_status_b64_returns [OF this]
  show "\<exists>r. get_alert_status_b64 g (k * max_cap) safe_cap max_cap = Inr r \<and>
      percentage r = PyFloat (Finite (100 * of_int k))"
    by blast
qed

lemma percentage_b64_7_25:
  "percentage_b64 7 25 = Inr (PyFloat (Finite (7881299347898369 / 281474976710656)))"
proof -
  have "(0::int) < 25" "(25::int) < 2 ^ 1000" "(0::int) \<le> 7" "(7::int) < 2 ^ 1000"
    by simp_all
  from percentage_b64_bounded [OF this] obtain p
    where p: "percentage_b64 7 25 = Inr (PyFloat (Finite p))"
      and v: "p = binary64 (binary64 (of_int 7 / of_int 25) * 100)"
    by blast
  have "binary64 (binary64 (of_int 7 / of_int 25) * 100) = 7881299347898369 / 281474976710656"
    by code_simp
  with p v show ?thesis by simp
qed

text \<open>
  The call \<^verbatim>\<open>get_alert_status(7, 5, 25)\<close> returns the percentage 28.000000000000004, which
  is \<open>28 + 2 ^ - 48\<close>, where \<open>100 * 7 / 25\<close> is 28.
\<close>

theorem get_alert_status_b64_percentage_counterexample:
  "map_sum id percentage (get_alert_status_b64 config 7 5 25) =
     Inr (PyFloat (Finite (7881299347898369 / 281474976710656))) \<and>
   map_sum id percentage (get_alert_status_b64 config 7 5 25) \<noteq>
     Inr (PyFloat (Finite (100 * 7 / 25)))"
proof -
  from get_alert_status_b64_returns [OF percentage_b64_7_25] obtain r
    where "get_alert_status_b64 config 7 5 25 = Inr r"
      and "percentage r = PyFloat (Finite (7881299347898369 / 281474976710656))"
    by blast
  then show ?thesis by simp
qed

theorem get_alert_status_b64_percentage_witness:
  "(\<exists>r. get_alert_status_b64 config 7 0 0 = Inr r \<and> percentage r = PyInt 0) \<and>
   (\<exists>r p. get_alert_status_b64 config 100 200 335 = Inr r \<and> percentage r = PyFloat (Finite p) \<and>
         p = 4201119055382925 / 140737488355328 \<and> \<bar>p - 2000 / 67\<bar> \<le> (2000 / 67) / 2 ^ 51) \<and>
   (\<exists>r. get_alert_status_b64 config 335 200 335 = Inr r \<and> percentage r = PyFloat (Finite 100))"
proof -
  have a: "\<exists>r. get_alert_status_b64 config 7 0 0 = Inr r \<and> percentage r = PyInt 0"
    using get_alert_status_b64_percentage [of 0 config 7 0 0] by simp
  have h: "(0::int) < 335 \<and> (335::int) < 2 ^ 1000 \<and> (0::int) \<le> 100 \<and> (100::int) < 2 ^ 1000"
    by simp
  with get_alert_status_b64_percentage [of 335 config 100 200 0] obtain r p
    where r: "get_alert_status_b64 config 100 200 335 = Inr r"
      and p: "percentage r = PyFloat (Finite p)"
      and v: "p = binary64 (binary64 (of_int 100 / of_int 335) * 100)"
      and e: "\<bar>p - 100 * of_int 100 / of_int 335\<bar> \<le> (100 * of_int 100 / of_int 335) / 2 ^ 51"
    by blast
  have "binary64 (binary64 (of_int 100 / of_int 335) * 100) = 4201119055382925 / 140737488355328"
    by code_simp
  with v have v': "p = 4201119055382925 / 140737488355328"
    by simp
  have e': "\<bar>p - 2000 / 67\<bar> \<le> (2000 / 67) / 2 ^ 51"
    using e by simp
  from r p v' e' have b: "\<exists>r p. get_alert_status_b64 config 100 200 335 = Inr r \<and>
      percentage r = PyFloat (Finite p) \<and>
      p = 4201119055382925 / 140737488355328 \<and> \<bar>p - 2000 / 67\<bar> \<le> (2000 / 67) / 2 ^ 51"
    by blast
  have c: "\<exists>r. get_alert_status_b64 config 335 200 335 = Inr r \<and> percentage r = PyFloat (Finite 100)"
    using get_alert_status_b64_percentage [of 335 config 0 200 1] by simp
  from a b c show ?thesis by (intro conjI)
qed

section \<open>The capacity estimate in binary64\<close>

lemma py_float_result_below_max:
  assumes "0 \<le> x" and "x \<le> 3 * 2 ^ 1022"
  shows "py_float_result x = Finite (binary64 x)"
proof (cases "x \<le> 2 powi 1023")
  case True
  with assms(1) have "\<bar>x\<bar> \<le> 2 powi 1023" by simp
  then show ?thesis by (rule py_float_result_finite) simp_all
next
  case False
  then have lo: "2 powi 1023 \<le> \<bar>x\<bar>" by simp
  have "\<bar>x\<bar> = x" using assms(1) by simp
  also have "x \<le> 3 * 2 ^ 1022" by (rule assms(2))
  also have "(3::rat) * 2 ^ 1022 < 2 powi (1023 + 1)" by simp
  finally have hi: "\<bar>x\<bar> < 2 powi (1023 + 1)" .
  from lo hi have e: "ilog2 x = 1023" by (rule ilog2_unique)
  have q: "quantum x = 2 powi 971"
    by (simp add: quantum_def e)
  have "x \<le> of_int (2 ^ 53 - 1) * quantum x"
    unfolding q using assms(2) by simp
  then have "binary64 x \<le> of_int (2 ^ 53 - 1) * quantum x"
    by (rule binary64_le_grid)
  also have "\<dots> < 2 ^ 1024"
    unfolding q by simp
  finally have "binary64 x < 2 ^ 1024" .
  moreover have "0 \<le> binary64 x"
    using assms(1) by (rule binary64_nonneg)
  ultimately show ?thesis
    by (simp add: py_float_result_def Let_def)
qed

text \<open>\<^verbatim>\<open>int(x * d)\<close> for a float \<open>x \<ge> 0\<close> and a density \<open>d\<close>.\<close>

lemma capacity_of_float:
  assumes "0 \<le> x" and "0 \<le> d" and "x * d \<le> 3 * 2 ^ 1022"
  shows "bind_exc (py_num_mul (PyFloat (Finite x)) (Finite d)) py_int_of_float
           = Inr \<lfloor>binary64 (x * d)\<rfloor>"
proof -
  have p: "0 \<le> x * d" using assms(1,2) by simp
  then have "py_float_result (x * d) = Finite (binary64 (x * d))"
    using assms(3) by (rule py_float_result_below_max)
  moreover have "0 \<le> binary64 (x * d)"
    using p by (rule binary64_nonneg)
  ultimately show ?thesis
    by (simp add: py_int_def)
qed

lemma capacity_of_int:
  assumes "0 \<le> a" and "a < 2 ^ 53" and "0 \<le> d" and "d \<le> 1"
  shows "bind_exc (py_num_mul (PyInt a) (Finite d)) py_int_of_float
           = Inr \<lfloor>binary64 (of_int a * d)\<rfloor>"
proof -
  have "\<bar>a\<bar> < 2 ^ 53" using assms(1,2) by simp
  then have f: "py_float_of_int a = Inr (Finite (of_int a))"
    by (rule py_float_of_int_exact)
  have "(of_int a :: rat) < of_int (2 ^ 53)"
    using assms(2) by (simp only: of_int_less_iff)
  then have a: "(of_int a :: rat) \<le> 2 ^ 53" by simp
  have a0: "(0::rat) \<le> of_int a" using assms(1) by simp
  have "of_int a * d \<le> of_int a * 1"
    using assms(4) a0 by (rule mult_left_mono)
  with a have "of_int a * d \<le> 3 * 2 ^ 1022" by simp
  with capacity_of_float [OF a0 assms(3)] show ?thesis
    by (simp add: f)
qed

text \<open>
  For an integer area up to \<open>10 ^ 12\<close> the two roundings (of the density, and of the
  product) do not reach the next integer: the capacities are those of exact arithmetic.
\<close>

lemma safe_capacity_exact:
  assumes "0 < a" and "a \<le> 10 ^ 12"
  shows "\<lfloor>binary64 (of_int a * (3602879701896397 / 9007199254740992))\<rfloor> = \<lfloor>of_int a * (4 / 10 :: rat)\<rfloor>"
proof -
  define n where "n = \<lfloor>of_int a * (4 / 10 :: rat)\<rfloor>"
  define P :: rat where "P = of_int a * (3602879701896397 / 9007199254740992)"
  have a1: "(1::rat) \<le> of_int a" using assms(1) by simp
  have "(of_int a :: rat) \<le> of_int (10 ^ 12)"
    using assms(2) by (simp only: of_int_le_iff)
  then have a2: "(of_int a :: rat) \<le> 1000000000000" by simp
  have n_le: "of_int n \<le> of_int a * (4 / 10 :: rat)"
    unfolding n_def by (rule of_int_floor_le)
  have "of_int a * (4 / 10 :: rat) < of_int n + 1"
    unfolding n_def by linarith
  then have "(of_int (4 * a) :: rat) < of_int (10 * n + 10)" by simp
  then have "4 * a < 10 * n + 10" by (simp only: of_int_less_iff)
  then have "4 * a \<le> 10 * n + 8" by presburger
  then have "(of_int (4 * a) :: rat) \<le> of_int (10 * n + 8)" by (simp only: of_int_le_iff)
  then have n_ge: "of_int a * (4 / 10 :: rat) \<le> of_int n + 8 / 10" by simp
  have P_lo: "(2::rat) powi (- 1022) \<le> \<bar>P\<bar>"
  proof -
    have "(2::rat) powi (- 1022) \<le> 2 powi (- 2)" by (simp only: powi2_le_iff)
    also have "\<dots> \<le> P" unfolding P_def using a1 by (simp add: power_int_minus)
    finally show ?thesis by simp
  qed
  have P_hi: "\<bar>P\<bar> < 2 ^ 53"
    unfolding P_def using a1 a2 by simp
  have "of_int n \<le> P"
    unfolding P_def using n_le a1 by simp
  then have lo: "of_int n \<le> binary64 P"
    using P_hi by (rule binary64_ge_int)
  have "\<bar>binary64 P - P\<bar> \<le> \<bar>P\<bar> / 2 ^ 53"
    using P_lo by (rule binary64_error)
  then have "binary64 P - P \<le> \<bar>P\<bar> / 2 ^ 53" by linarith
  then have "binary64 P \<le> P + P / 9007199254740992"
    unfolding P_def using a1 by simp
  then have hi: "binary64 P < of_int n + 1"
    unfolding P_def using n_ge a1 a2 by linarith
  from lo hi have "\<lfloor>binary64 P\<rfloor> = n"
    by (simp add: floor_unique)
  then show ?thesis
    by (simp only: P_def n_def)
qed

lemma max_capacity_exact:
  assumes "0 < a" and "a \<le> 10 ^ 12"
  shows "\<lfloor>binary64 (of_int a * (6034823500676465 / 9007199254740992))\<rfloor> = \<lfloor>of_int a * (67 / 100 :: rat)\<rfloor>"
proof -
  define n where "n = \<lfloor>of_int a * (67 / 100 :: rat)\<rfloor>"
  define P :: rat where "P = of_int a * (6034823500676465 / 9007199254740992)"
  have a1: "(1::rat) \<le> of_int a" using assms(1) by simp
  have "(of_int a :: rat) \<le> of_int (10 ^ 12)"
    using assms(2) by (simp only: of_int_le_iff)
  then have a2: "(of_int a :: rat) \<le> 1000000000000" by simp
  have n_le: "of_int n \<le> of_int a * (67 / 100 :: rat)"
    unfolding n_def by (rule of_int_floor_le)
  have "of_int a * (67 / 100 :: rat) < of_int n + 1"
    unfolding n_def by linarith
  then have "(of_int (67 * a) :: rat) < of_int (100 * n + 100)" by simp
  then have "67 * a < 100 * n + 100" by (simp only: of_int_less_iff)
  then have "67 * a \<le> 100 * n + 99" by simp
  then have "(of_int (67 * a) :: rat) \<le> of_int (100 * n + 99)" by (simp only: of_int_le_iff)
  then have n_ge: "of_int a * (67 / 100 :: rat) \<le> of_int n + 99 / 100" by simp
  have P_lo: "(2::rat) powi (- 1022) \<le> \<bar>P\<bar>"
  proof -
    have "(2::rat) powi (- 1022) \<le> 2 powi (- 2)" by (simp only: powi2_le_iff)
    also have "\<dots> \<le> P" unfolding P_def using a1 by (simp add: power_int_minus)
    finally show ?thesis by simp
  qed
  have P_hi: "\<bar>P\<bar> < 2 ^ 53"
    unfolding P_def using a1 a2 by simp
  have "of_int n \<le> P"
    unfolding P_def using n_le a1 by simp
  then have lo: "of_int n \<le> binary64 P"
    using P_hi by (rule binary64_ge_int)
  have "\<bar>binary64 P - P\<bar> \<le> \<bar>P\<bar> / 2 ^ 53"
    using P_lo by (rule binary64_error)
  then have "binary64 P - P \<le> \<bar>P\<bar> / 2 ^ 53" by linarith
  then have "binary64 P \<le> P + P / 9007199254740992"
    unfolding P_def using a1 by simp
  then have hi: "binary64 P < of_int n + 1"
    unfolding P_def using n_ge a1 a2 by linarith
  from lo hi have "\<lfloor>binary64 P\<rfloor> = n"
    by (simp add: floor_unique)
  then show ?thesis
    by (simp only: P_def n_def)
qed

lemma estimate_b64_default:
  "estimate_venue_capacity_b64 (Some (PyInt 500)) =
     Inr \<lparr> area = PyInt 500, safe_capacity = 200, max_capacity = 335 \<rparr>"
proof -
  have s: "bind_exc (py_num_mul (PyInt 500) SAFE_DENSITY_b64) py_int_of_float = Inr 200"
    unfolding SAFE_DENSITY_b64_def SAFE_DENSITY_value
    using capacity_of_int [of 500 "3602879701896397 / 9007199254740992"]
      safe_capacity_exact [of 500]
    by simp
  have m: "bind_exc (py_num_mul (PyInt 500) MAX_DENSITY_b64) py_int_of_float = Inr 335"
    unfolding MAX_DENSITY_b64_def MAX_DENSITY_value
    using capacity_of_int [of 500 "6034823500676465 / 9007199254740992"]
      max_capacity_exact [of 500]
    by simp
  show ?thesis
    by (simp add: estimate_venue_capacity_b64_def DEFAULT_VENUE_AREA_b64_def Let_def s m
        del: py_num_mul.simps)
qed

lemma estimate_b64_substitutes:
  assumes "area_sqm = None \<or> (\<exists>x. area_sqm = Some x \<and> py_num_le_zero x)"
  shows "estimate_venue_capacity_b64 area_sqm = estimate_venue_capacity_b64 (Some (PyInt 500))"
  using assms by (auto simp: estimate_venue_capacity_b64_def DEFAULT_VENUE_AREA_b64_def)

lemma estimate_b64_int:
  assumes "0 < a" and "a \<le> 10 ^ 12"
  shows "estimate_venue_capacity_b64 (Some (PyInt a)) =
           Inr \<lparr> area = PyInt a,
                 safe_capacity = \<lfloor>of_int a * (4 / 10 :: rat)\<rfloor>,
                 max_capacity = \<lfloor>of_int a * (67 / 100 :: rat)\<rfloor> \<rparr>"
proof -
  from assms(2) have a53: "a < 2 ^ 53" by simp
  from assms(1) have a0: "0 \<le> a" by simp
  have s: "bind_exc (py_num_mul (PyInt a) SAFE_DENSITY_b64) py_int_of_float
      = Inr \<lfloor>of_int a * (4 / 10 :: rat)\<rfloor>"
    unfolding SAFE_DENSITY_b64_def SAFE_DENSITY_value
    using capacity_of_int [OF a0 a53, of "3602879701896397 / 9007199254740992"]
      safe_capacity_exact [OF assms]
    by simp
  have m: "bind_exc (py_num_mul (PyInt a) MAX_DENSITY_b64) py_int_of_float
      = Inr \<lfloor>of_int a * (67 / 100 :: rat)\<rfloor>"
    unfolding MAX_DENSITY_b64_def MAX_DENSITY_value
    using capacity_of_int [OF a0 a53, of "6034823500676465 / 9007199254740992"]
      max_capacity_exact [OF assms]
    by simp
  show ?thesis
    using assms(1)
    by (simp add: estimate_venue_capacity_b64_def Let_def s m del: py_num_mul.simps)
qed

lemma estimate_b64_float:
  assumes "0 < x" and "x < 2 ^ 1024"
  shows "estimate_venue_capacity_b64 (Some (PyFloat (Finite x))) =
           Inr \<lparr> area = PyFloat (Finite x),
                 safe_capacity = \<lfloor>binary64 (x * binary64 (4 / 10))\<rfloor>,
                 max_capacity = \<lfloor>binary64 (x * binary64 (67 / 100))\<rfloor> \<rparr>"
proof -
  from assms(1) have x0: "0 \<le> x" by simp
  have "x * (3602879701896397 / 9007199254740992) \<le> 3 * 2 ^ 1022"
    using assms by simp
  then have s: "bind_exc (py_num_mul (PyFloat (Finite x)) SAFE_DENSITY_b64) py_int_of_float
      = Inr \<lfloor>binary64 (x * binary64 (4 / 10))\<rfloor>"
    unfolding SAFE_DENSITY_b64_def SAFE_DENSITY_value
    by (intro capacity_of_float x0) simp_all
  have "x * (6034823500676465 / 9007199254740992) \<le> 3 * 2 ^ 1022"
    using assms by simp
  then have m: "bind_exc (py_num_mul (PyFloat (Finite x)) MAX_DENSITY_b64) py_int_of_float
      = Inr \<lfloor>binary64 (x * binary64 (67 / 100))\<rfloor>"
    unfolding MAX_DENSITY_b64_def MAX_DENSITY_value
    by (intro capacity_of_float x0) simp_all
  show ?thesis
    using assms(1)
    by (simp add: estimate_venue_capacity_b64_def Let_def s m del: py_num_mul.simps)
qed

text \<open>
  C3, as the code has it. An absent area and an area \<open>\<le> 0\<close> are replaced by the default 500,
  for which the capacities are 200 and 335. For an integer area from 1 to \<open>10 ^ 12\<close> the
  capacities are \<open>\<lfloor>area * 0.4\<rfloor>\<close> and \<open>\<lfloor>area * 0.67\<rfloor>\<close>. For a positive finite float area
  they are the floors of the binary64 products of the area with the floats 0.4 and 0.67.
\<close>

theorem estimate_venue_capacity_b64_formula:
  "(area_sqm = None \<or> (\<exists>x. area_sqm = Some x \<and> py_num_le_zero x) \<longrightarrow>
      estimate_venue_capacity_b64 area_sqm =
        Inr \<lparr> area = PyInt 500, safe_capacity = 200, max_capacity = 335 \<rparr>) \<and>
   (0 < a \<and> a \<le> 10 ^ 12 \<longrightarrow>
      estimate_venue_capacity_b64 (Some (PyInt a)) =
        Inr \<lparr> area = PyInt a,
              safe_capacity = \<lfloor>of_int a * (4 / 10 :: rat)\<rfloor>,
              max_capacity = \<lfloor>of_int a * (67 / 100 :: rat)\<rfloor> \<rparr>) \<and>
   (0 < x \<and> x < 2 ^ 1024 \<longrightarrow>
      estimate_venue_capacity_b64 (Some (PyFloat (Finite x))) =
        Inr \<lparr> area = PyFloat (Finite x),
              safe_capacity = \<lfloor>binary64 (x * binary64 (4 / 10))\<rfloor>,
              max_capacity = \<lfloor>binary64 (x * binary64 (67 / 100))\<rfloor> \<rparr>) \<and>
   estimate_venue_capacity_b64 (Some (PyInt 500)) =
     Inr \<lparr> area = PyInt 500, safe_capacity = 200, max_capacity = 335 \<rparr>"
proof (intro conjI impI)
  assume "area_sqm = None \<or> (\<exists>x. area_sqm = Some x \<and> py_num_le_zero x)"
  then show "estimate_venue_capacity_b64 area_sqm =
      Inr \<lparr> area = PyInt 500, safe_capacity = 200, max_capacity = 335 \<rparr>"
    by (simp only: estimate_b64_substitutes estimate_b64_default)
next
  assume "0 < a \<and> a \<le> 10 ^ 12"
  then show "estimate_venue_capacity_b64 (Some (PyInt a)) =
      Inr \<lparr> area = PyInt a,
            safe_capacity = \<lfloor>of_int a * (4 / 10 :: rat)\<rfloor>,
            max_capacity = \<lfloor>of_int a * (67 / 100 :: rat)\<rfloor> \<rparr>"
    by (intro estimate_b64_int) simp_all
next
  assume "0 < x \<and> x < 2 ^ 1024"
  then show "estimate_venue_capacity_b64 (Some (PyFloat (Finite x))) =
      Inr \<lparr> area = PyFloat (Finite x),
            safe_capacity = \<lfloor>binary64 (x * binary64 (4 / 10))\<rfloor>,
            max_capacity = \<lfloor>binary64 (x * binary64 (67 / 100))\<rfloor> \<rparr>"
    by (intro estimate_b64_float) simp_all
next
  show "estimate_venue_capacity_b64 (Some (PyInt 500)) =
      Inr \<lparr> area = PyInt 500, safe_capacity = 200, max_capacity = 335 \<rparr>"
    by (rule estimate_b64_default)
qed

text \<open>
  The float area 7.499999999999999, which is \<open>7.5 - 2 ^ - 50\<close>: the code returns the safe
  capacity 3, where \<open>\<lfloor>area * 0.4\<rfloor>\<close> is 2. The integer area \<open>10 ^ 15 + 70\<close>: the code returns
  the maximum capacity 670000000000047, where \<open>\<lfloor>area * 0.67\<rfloor>\<close> is 670000000000046.
\<close>

theorem estimate_venue_capacity_b64_counterexample:
  "estimate_venue_capacity_b64 (Some (PyFloat (Finite (8444249301319679 / 1125899906842624)))) =
     Inr \<lparr> area = PyFloat (Finite (8444249301319679 / 1125899906842624)),
           safe_capacity = 3, max_capacity = 5 \<rparr> \<and>
   \<lfloor>(8444249301319679 / 1125899906842624) * (4 / 10 :: rat)\<rfloor> = 2 \<and>
   estimate_venue_capacity_b64 (Some (PyInt 1000000000000070)) =
     Inr \<lparr> area = PyInt 1000000000000070,
           safe_capacity = 400000000000028, max_capacity = 670000000000047 \<rparr> \<and>
   \<lfloor>of_int 1000000000000070 * (67 / 100 :: rat)\<rfloor> = 670000000000046"
proof -
  have s: "\<lfloor>binary64 ((8444249301319679 / 1125899906842624) * binary64 (4 / 10))\<rfloor> = 3"
    by code_simp
  have m: "\<lfloor>binary64 ((8444249301319679 / 1125899906842624) * binary64 (67 / 100))\<rfloor> = 5"
    by code_simp
  have f: "\<lfloor>(8444249301319679 / 1125899906842624) * (4 / 10 :: rat)\<rfloor> = 2"
    by (simp add: floor_eq_iff)
  have a: "estimate_venue_capacity_b64 (Some (PyFloat (Finite (8444249301319679 / 1125899906842624)))) =
      Inr \<lparr> area = PyFloat (Finite (8444249301319679 / 1125899906842624)),
            safe_capacity = 3, max_capacity = 5 \<rparr>"
    using estimate_b64_float [of "8444249301319679 / 1125899906842624"]
    by (simp only: s m) simp
  have si: "\<lfloor>binary64 (of_int 1000000000000070 * (3602879701896397 / 9007199254740992))\<rfloor>
      = 400000000000028"
    by code_simp
  have mi: "\<lfloor>binary64 (of_int 1000000000000070 * (6034823500676465 / 9007199254740992))\<rfloor>
      = 670000000000047"
    by code_simp
  have s': "bind_exc (py_num_mul (PyInt 1000000000000070) SAFE_DENSITY_b64) py_int_of_float
      = Inr 400000000000028"
    unfolding SAFE_DENSITY_b64_def SAFE_DENSITY_value
    using capacity_of_int [of 1000000000000070 "3602879701896397 / 9007199254740992"]
    by (simp only: si) simp
  have m': "bind_exc (py_num_mul (PyInt 1000000000000070) MAX_DENSITY_b64) py_int_of_float
      = Inr 670000000000047"
    unfolding MAX_DENSITY_b64_def MAX_DENSITY_value
    using capacity_of_int [of 1000000000000070 "6034823500676465 / 9007199254740992"]
    by (simp only: mi) simp
  have b: "estimate_venue_capacity_b64 (Some (PyInt 1000000000000070)) =
      Inr \<lparr> area = PyInt 1000000000000070,
            safe_capacity = 400000000000028, max_capacity = 670000000000047 \<rparr>"
    by (simp add: estimate_venue_capacity_b64_def Let_def s' m' del: py_num_mul.simps)
  have g: "\<lfloor>of_int 1000000000000070 * (67 / 100 :: rat)\<rfloor> = 670000000000046"
    by (simp add: floor_eq_iff)
  from a f b g show ?thesis by (intro conjI)
qed

theorem estimate_venue_capacity_b64_formula_witness:
  "estimate_venue_capacity_b64 None =
     Inr \<lparr> area = PyInt 500, safe_capacity = 200, max_capacity = 335 \<rparr> \<and>
   estimate_venue_capacity_b64 (Some (PyInt 0)) =
     Inr \<lparr> area = PyInt 500, safe_capacity = 200, max_capacity = 335 \<rparr> \<and>
   estimate_venue_capacity_b64 (Some (PyFloat (Finite (- 10)))) =
     Inr \<lparr> area = PyInt 500, safe_capacity = 200, max_capacity = 335 \<rparr> \<and>
   estimate_venue_capacity_b64 (Some (PyInt 120)) =
     Inr \<lparr> area = PyInt 120, safe_capacity = 48, max_capacity = 80 \<rparr> \<and>
   estimate_venue_capacity_b64 (Some (PyFloat (Finite (15 / 2)))) =
     Inr \<lparr> area = PyFloat (Finite (15 / 2)), safe_capacity = 3, max_capacity = 5 \<rparr>"
proof -
  have a: "estimate_venue_capacity_b64 None =
      Inr \<lparr> area = PyInt 500, safe_capacity = 200, max_capacity = 335 \<rparr>"
    using estimate_venue_capacity_b64_formula [of None 1 1] by simp
  have b: "estimate_venue_capacity_b64 (Some (PyInt 0)) =
      Inr \<lparr> area = PyInt 500, safe_capacity = 200, max_capacity = 335 \<rparr>"
    using estimate_venue_capacity_b64_formula [of "Some (PyInt 0)" 1 1] by simp
  have c: "estimate_venue_capacity_b64 (Some (PyFloat (Finite (- 10)))) =
      Inr \<lparr> area = PyInt 500, safe_capacity = 200, max_capacity = 335 \<rparr>"
    using estimate_venue_capacity_b64_formula [of "Some (PyFloat (Finite (- 10)))" 1 1] by simp
  have d: "estimate_venue_capacity_b64 (Some (PyInt 120)) =
      Inr \<lparr> area = PyInt 120, safe_capacity = 48, max_capacity = 80 \<rparr>"
    using estimate_venue_capacity_b64_formula [of None 120 1] by (simp add: floor_eq_iff)
  have s: "\<lfloor>binary64 ((15 / 2) * binary64 (4 / 10))\<rfloor> = 3"
    by code_simp
  have m: "\<lfloor>binary64 ((15 / 2) * binary64 (67 / 100))\<rfloor> = 5"
    by code_simp
  have e: "estimate_venue_capacity_b64 (Some (PyFloat (Finite (15 / 2)))) =
      Inr \<lparr> area = PyFloat (Finite (15 / 2)), safe_capacity = 3, max_capacity = 5 \<rparr>"
    using estimate_venue_capacity_b64_formula [of None 1 "15 / 2"] by (simp only: s m) simp
  from a b c d e show ?thesis by (intro conjI)
qed

section \<open>The order of the results in binary64\<close>

lemma py_float_result_mono:
  assumes "x \<le> y"
  shows "py_float_le (py_float_result x) (py_float_result y)"
proof -
  have "binary64 x \<le> binary64 y"
    using assms by (rule binary64_mono)
  then show ?thesis
    by (auto simp: py_float_result_def Let_def)
qed

lemma py_float_result_Finite:
  "py_float_result z = Finite y \<Longrightarrow> y = binary64 z"
  by (simp add: py_float_result_def Let_def split: if_splits)

text \<open>
  The order of the percentages and of the statuses, of the binary64 function: what
  \<open>get_alert_status_monotone\<close> says of the exact one.
\<close>

lemma percentage_b64_mono:
  assumes "c1 \<le> c2"
    and "percentage_b64 c1 max_cap = Inr p1" and "percentage_b64 c2 max_cap = Inr p2"
  shows "py_num_le p1 p2"
proof (cases "0 < max_cap")
  case False
  then have "percentage_b64 c1 max_cap = Inr (PyInt 0)" and "percentage_b64 c2 max_cap = Inr (PyInt 0)"
    by (simp_all add: percentage_b64_guard)
  with assms(2,3) have "p1 = PyInt 0" and "p2 = PyInt 0" by simp_all
  then show ?thesis by simp
next
  case True
  let ?q1 = "binary64 (of_int c1 / of_int max_cap)"
  let ?q2 = "binary64 (of_int c2 / of_int max_cap)"
  have "(of_int c1 :: rat) / of_int max_cap \<le> of_int c2 / of_int max_cap"
    using assms(1) True by (intro divide_right_mono) simp_all
  then have "?q1 \<le> ?q2" by (rule binary64_mono)
  then have "?q1 * 100 \<le> ?q2 * 100" by simp
  then have "py_float_le (py_float_result (?q1 * 100)) (py_float_result (?q2 * 100))"
    by (rule py_float_result_mono)
  moreover have "p1 = PyFloat (py_float_result (?q1 * 100))"
    using assms(2) True by (simp add: percentage_b64_division split: if_splits)
  moreover have "p2 = PyFloat (py_float_result (?q2 * 100))"
    using assms(3) True by (simp add: percentage_b64_division split: if_splits)
  ultimately show ?thesis by simp
qed

lemma get_alert_status_b64_monotone:
  assumes "c1 \<le> c2"
    and "get_alert_status_b64 g c1 safe_cap max_cap = Inr r1"
    and "get_alert_status_b64 g c2 safe_cap max_cap = Inr r2"
  shows "py_num_le (percentage r1) (percentage r2)"
    and "\<exists>k1 k2. status_rank (status r1) = Some k1 \<and> status_rank (status r2) = Some k2 \<and> k1 \<le> k2"
proof -
  obtain p1 where p1: "percentage_b64 c1 max_cap = Inr p1"
    using assms(2) get_alert_status_b64_raises [of c1 max_cap _ g safe_cap]
    by (cases "percentage_b64 c1 max_cap") simp_all
  obtain p2 where p2: "percentage_b64 c2 max_cap = Inr p2"
    using assms(3) get_alert_status_b64_raises [of c2 max_cap _ g safe_cap]
    by (cases "percentage_b64 c2 max_cap") simp_all
  from get_alert_status_b64_returns [OF p1, of g safe_cap] assms(2)
  have r1: "percentage r1 = p1"
    and s1: "status r1 =
      (if max_cap \<le> c1 then ''CRITICAL'' else if safe_cap \<le> c1 then ''WARNING'' else ''SAFE'')"
    by auto
  from get_alert_status_b64_returns [OF p2, of g safe_cap] assms(3)
  have r2: "percentage r2 = p2"
    and s2: "status r2 =
      (if max_cap \<le> c2 then ''CRITICAL'' else if safe_cap \<le> c2 then ''WARNING'' else ''SAFE'')"
    by auto
  show "py_num_le (percentage r1) (percentage r2)"
    unfolding r1 r2 using assms(1) p1 p2 by (rule percentage_b64_mono)
  show "\<exists>k1 k2. status_rank (status r1) = Some k1 \<and> status_rank (status r2) = Some k2 \<and> k1 \<le> k2"
    using assms(1) by (auto simp: s1 s2 status_rank_def)
qed

text \<open>
  The invariant of the binary64 estimate, whenever it returns: what
  \<open>estimate_venue_capacity_ordered\<close> says of the exact one.
\<close>

lemma density_product:
  assumes "bind_exc (py_num_mul a (Finite d)) py_int_of_float = Inr n"
    and "\<not> py_num_le_zero a" and "0 \<le> d"
  shows "\<exists>x. 0 \<le> x \<and> n = \<lfloor>binary64 (x * d)\<rfloor> \<and>
           (a = PyFloat (Finite x) \<or> (\<exists>k. a = PyInt k \<and> x = binary64 (of_int k)))"
proof -
  have finite: "n = \<lfloor>binary64 (x * d)\<rfloor>"
    if "bind_exc (Inr (py_float_mul (Finite x) (Finite d))) py_int_of_float = Inr n" and "0 \<le> x"
    for x
  proof -
    from that(1) obtain y where y: "py_float_result (x * d) = Finite y" and n: "n = py_int y"
      by (cases "py_float_result (x * d)") simp_all
    from y have "y = binary64 (x * d)" by (rule py_float_result_Finite)
    moreover have "0 \<le> binary64 (x * d)"
      using that(2) assms(3) by (intro binary64_nonneg) simp
    ultimately show ?thesis using n by (simp add: py_int_def)
  qed
  show ?thesis
  proof (cases a)
    case (PyInt k)
    with assms(2) have k: "0 < k" by simp
    from assms(1) PyInt obtain f where f: "py_float_of_int k = Inr f"
      by (cases "py_float_of_int k") simp_all
    then have fx: "f = Finite (binary64 (of_int k))"
      by (simp add: py_float_of_int_def Let_def split: if_splits)
    have x0: "0 \<le> binary64 (of_int k)"
      using k by (intro binary64_nonneg) simp
    from assms(1) PyInt f fx
    have "bind_exc (Inr (py_float_mul (Finite (binary64 (of_int k))) (Finite d))) py_int_of_float
        = Inr n"
      by simp
    from finite [OF this x0] x0 PyInt show ?thesis by blast
  next
    case (PyFloat f)
    show ?thesis
    proof (cases f)
      case (Finite x)
      with PyFloat assms(2) have x0: "0 \<le> x" by simp
      from assms(1) PyFloat Finite
      have "bind_exc (Inr (py_float_mul (Finite x) (Finite d))) py_int_of_float = Inr n"
        by simp
      from finite [OF this x0] x0 PyFloat Finite show ?thesis by blast
    next
      case PosInf
      with assms(1) PyFloat show ?thesis
        by (simp add: py_float_mul_def Let_def split: if_splits)
    next
      case NegInf
      with assms(2) PyFloat show ?thesis by simp
    next
      case NaN
      with assms(1) PyFloat show ?thesis
        by (simp add: py_float_mul_def)
    qed
  qed
qed

lemma estimate_b64_ordered:
  assumes "estimate_venue_capacity_b64 area_sqm = Inr e"
  shows "0 \<le> safe_capacity e \<and> safe_capacity e \<le> max_capacity e"
proof -
  define a where "a = (case area_sqm of
      None \<Rightarrow> DEFAULT_VENUE_AREA_b64
    | Some x \<Rightarrow> if py_num_le_zero x then DEFAULT_VENUE_AREA_b64 else x)"
  have pos: "\<not> py_num_le_zero a"
    by (simp add: a_def DEFAULT_VENUE_AREA_b64_def split: option.splits)
  from assms obtain s where s: "bind_exc (py_num_mul a SAFE_DENSITY_b64) py_int_of_float = Inr s"
    unfolding estimate_venue_capacity_b64_def a_def [symmetric] Let_def
    by (cases "bind_exc (py_num_mul a SAFE_DENSITY_b64) py_int_of_float") simp_all
  with assms obtain m where m: "bind_exc (py_num_mul a MAX_DENSITY_b64) py_int_of_float = Inr m"
    and e: "e = \<lparr> area = a, safe_capacity = s, max_capacity = m \<rparr>"
    unfolding estimate_venue_capacity_b64_def a_def [symmetric] Let_def
    by (cases "bind_exc (py_num_mul a MAX_DENSITY_b64) py_int_of_float") auto
  let ?c = "3602879701896397 / 9007199254740992 :: rat"
  let ?d = "6034823500676465 / 9007199254740992 :: rat"
  from s have "bind_exc (py_num_mul a (Finite ?c)) py_int_of_float = Inr s"
    by (simp only: SAFE_DENSITY_b64_def SAFE_DENSITY_value)
  from density_product [OF this pos] obtain x
    where x0: "0 \<le> x" and sx: "s = \<lfloor>binary64 (x * ?c)\<rfloor>"
      and ax: "a = PyFloat (Finite x) \<or> (\<exists>k. a = PyInt k \<and> x = binary64 (of_int k))"
    by auto
  from m have "bind_exc (py_num_mul a (Finite ?d)) py_int_of_float = Inr m"
    by (simp only: MAX_DENSITY_b64_def MAX_DENSITY_value)
  from density_product [OF this pos] obtain x'
    where mx: "m = \<lfloor>binary64 (x' * ?d)\<rfloor>"
      and ax': "a = PyFloat (Finite x') \<or> (\<exists>k. a = PyInt k \<and> x' = binary64 (of_int k))"
    by auto
  from ax ax' have "x' = x" by auto
  have "x * ?c \<le> x * ?d"
    using x0 by (intro mult_left_mono) simp_all
  then have "binary64 (x * ?c) \<le> binary64 (x * ?d)"
    by (rule binary64_mono)
  then have "s \<le> m"
    unfolding sx mx \<open>x' = x\<close> by (rule floor_mono)
  moreover have "0 \<le> binary64 (x * ?c)"
    using x0 by (intro binary64_nonneg) simp
  then have "0 \<le> s"
    unfolding sx by simp
  ultimately show ?thesis by (simp add: e)
qed

section \<open>Raising and returning\<close>

lemma py_int_truediv_overflow:
  assumes "0 < b" and "2 ^ 1024 * b \<le> a"
  shows "py_int_truediv a b = Inl OverflowError"
proof -
  have b: "(0::rat) < of_int b" using assms(1) by simp
  have "(of_int (2 ^ 1024 * b) :: rat) \<le> of_int a"
    using assms(2) by (simp only: of_int_le_iff)
  then have "(2::rat) ^ 1024 * of_int b \<le> of_int a" by simp
  then have "(2::rat) ^ 1024 \<le> of_int a / of_int b"
    using b by (simp add: pos_le_divide_eq)
  then have "(2::rat) powi 1024 \<le> of_int a / of_int b" by simp
  then have "(2::rat) powi 1024 \<le> binary64 (of_int a / of_int b)"
    by (rule binary64_ge_powi) simp
  then have "(2::rat) ^ 1024 \<le> \<bar>binary64 (of_int a / of_int b)\<bar>" by simp
  then show ?thesis
    using assms(1) by (simp add: py_int_truediv_def Let_def)
qed

lemma py_float_of_int_overflow:
  assumes "2 ^ 1024 \<le> a"
  shows "py_float_of_int a = Inl OverflowError"
proof -
  have "(of_int (2 ^ 1024) :: rat) \<le> of_int a"
    using assms by (simp only: of_int_le_iff)
  then have "(2::rat) powi 1024 \<le> of_int a" by simp
  then have "(2::rat) powi 1024 \<le> binary64 (of_int a)"
    by (rule binary64_ge_powi) simp
  then have "(2::rat) ^ 1024 \<le> \<bar>binary64 (of_int a)\<bar>" by simp
  then show ?thesis
    by (simp add: py_float_of_int_def Let_def)
qed

lemma percentage_b64_returns:
  assumes "\<bar>c\<bar> < 2 ^ 1023"
  shows "\<exists>p. percentage_b64 c max_cap = Inr p"
proof (cases "0 < max_cap")
  case False
  then show ?thesis by (simp add: percentage_b64_guard)
next
  case True
  then have "max_cap \<noteq> 0" by simp
  from py_int_truediv_returns [OF this assms] True show ?thesis
    by (simp add: percentage_b64_def)
qed

lemma percentage_b64_overflow:
  assumes "0 < max_cap" and "2 ^ 1024 * max_cap \<le> c"
  shows "percentage_b64 c max_cap = Inl OverflowError"
  using py_int_truediv_overflow [OF assms] assms(1) by (simp add: percentage_b64_def)

lemma py_float_result_nonneg:
  assumes "0 \<le> x"
  shows "py_float_result x = PosInf \<or> (\<exists>p. 0 \<le> p \<and> py_float_result x = Finite p)"
proof -
  have "0 \<le> binary64 x" using assms by (rule binary64_nonneg)
  then show ?thesis
    by (auto simp: py_float_result_def Let_def)
qed

lemma percentage_b64_nonneg:
  assumes "0 \<le> c" and "percentage_b64 c max_cap = Inr p"
  shows "p = PyInt 0 \<or> p = PyFloat PosInf \<or> (\<exists>y. 0 \<le> y \<and> p = PyFloat (Finite y))"
proof (cases "0 < max_cap")
  case False
  with assms(2) show ?thesis by (simp add: percentage_b64_guard)
next
  case True
  have "(0::rat) \<le> of_int c / of_int max_cap"
    using assms(1) True by simp
  then have "0 \<le> binary64 (of_int c / of_int max_cap)"
    by (rule binary64_nonneg)
  then have "0 \<le> binary64 (of_int c / of_int max_cap) * 100"
    by simp
  from py_float_result_nonneg [OF this] assms(2) True show ?thesis
    by (auto simp: percentage_b64_division split: if_splits)
qed

text \<open>
  C10, as the code has it. The function does not check its arguments. With
  \<open>safe_cap > max_cap\<close> and a count below \<open>2 ^ 1023\<close> in absolute value the call returns an
  alert with one of the three statuses and a non-empty list of recommendations; for
  \<open>c \<ge> 0\<close> the percentage is the integer 0, a float \<open>\<ge> 0\<close>, or the float infinity. The
  CRITICAL test comes first: every count \<open>c \<ge> max_cap\<close> is CRITICAL, both in the band
  \<open>max_cap \<le> c < safe_cap\<close> and for \<open>c \<ge> safe_cap\<close>, where the WARNING test holds as well; a
  count below \<open>max_cap\<close> is SAFE; WARNING is not returned.
\<close>

theorem get_alert_status_b64_unordered_capacities:
  assumes "safe_cap > max_cap" and "\<bar>c\<bar> < 2 ^ 1023"
  shows "\<exists>r. get_alert_status_b64 g c safe_cap max_cap = Inr r \<and>
           (status r = ''SAFE'' \<or> status r = ''WARNING'' \<or> status r = ''CRITICAL'') \<and>
           recommendations r \<noteq> [] \<and>
           (0 \<le> c \<longrightarrow>
              percentage r = PyInt 0 \<or> percentage r = PyFloat PosInf \<or>
              (\<exists>y. 0 \<le> y \<and> percentage r = PyFloat (Finite y))) \<and>
           (max_cap \<le> c \<and> c < safe_cap \<longrightarrow> status r = ''CRITICAL'' \<and> status r \<noteq> ''WARNING'') \<and>
           (safe_cap \<le> c \<longrightarrow> status r = ''CRITICAL'' \<and> status r \<noteq> ''WARNING'') \<and>
           (c < max_cap \<longrightarrow> status r = ''SAFE'') \<and>
           status r \<noteq> ''WARNING''"
proof -
  from percentage_b64_returns [OF assms(2)] obtain p
    where p: "percentage_b64 c max_cap = Inr p"
    by blast
  from get_alert_status_b64_returns [OF p] obtain r
    where r: "get_alert_status_b64 g c safe_cap max_cap = Inr r"
      and pr: "percentage r = p"
      and s: "status r =
        (if max_cap \<le> c then ''CRITICAL'' else if safe_cap \<le> c then ''WARNING'' else ''SAFE'')"
      and recs: "recommendations r \<noteq> []"
    by blast
  have 1: "status r = ''SAFE'' \<or> status r = ''WARNING'' \<or> status r = ''CRITICAL''"
    by (simp add: s)
  have 2: "0 \<le> c \<longrightarrow>
      percentage r = PyInt 0 \<or> percentage r = PyFloat PosInf \<or>
      (\<exists>y. 0 \<le> y \<and> percentage r = PyFloat (Finite y))"
    using percentage_b64_nonneg [OF _ p] by (simp add: pr)
  have 3: "max_cap \<le> c \<and> c < safe_cap \<longrightarrow> status r = ''CRITICAL'' \<and> status r \<noteq> ''WARNING''"
    by (simp add: s)
  have 4: "safe_cap \<le> c \<longrightarrow> status r = ''CRITICAL'' \<and> status r \<noteq> ''WARNING''"
    using assms(1) by (simp add: s)
  have 5: "c < max_cap \<longrightarrow> status r = ''SAFE''"
    using assms(1) by (simp add: s)
  have 6: "status r \<noteq> ''WARNING''"
    using assms(1) by (simp add: s)
  from r 1 recs 2 3 4 5 6 show ?thesis
    by (intro exI [of _ r] conjI)
qed

text \<open>
  With \<open>safe_cap = 2 > max_cap = 1\<close> the call on the count \<open>10 ^ 400\<close> raises
  \<^verbatim>\<open>OverflowError\<close>: the quotient is beyond the binary64 range.
\<close>

theorem get_alert_status_b64_unordered_capacities_counterexample:
  "get_alert_status_b64 config (10 ^ 400) 2 1 = Inl OverflowError"
proof -
  have "percentage_b64 (10 ^ 400) 1 = Inl OverflowError"
    by (rule percentage_b64_overflow) simp_all
  then show ?thesis
    by (rule get_alert_status_b64_raises)
qed

theorem get_alert_status_b64_unordered_capacities_witness:
  "(\<exists>r. get_alert_status_b64 config 400 335 200 = Inr r \<and> status r = ''CRITICAL'' \<and>
        recommendations r \<noteq> [] \<and> (\<exists>y. 0 \<le> y \<and> percentage r = PyFloat (Finite y))) \<and>
   (\<exists>r. get_alert_status_b64 config 250 335 200 = Inr r \<and> status r = ''CRITICAL'' \<and>
        status r \<noteq> ''WARNING'') \<and>
   (\<exists>r. get_alert_status_b64 config 100 335 200 = Inr r \<and> status r = ''SAFE'')"
proof -
  have h: "(335::int) > 200" by simp
  have c1: "\<bar>400::int\<bar> < 2 ^ 1023" and c2: "\<bar>250::int\<bar> < 2 ^ 1023" and c3: "\<bar>100::int\<bar> < 2 ^ 1023"
    by simp_all
  from get_alert_status_b64_unordered_capacities [OF h c1, of config] obtain r
    where r: "get_alert_status_b64 config 400 335 200 = Inr r"
      and recs: "recommendations r \<noteq> []"
      and p: "(0::int) \<le> 400 \<longrightarrow>
        percentage r = PyInt 0 \<or> percentage r = PyFloat PosInf \<or>
        (\<exists>y. 0 \<le> y \<and> percentage r = PyFloat (Finite y))"
      and s: "(335::int) \<le> 400 \<longrightarrow> status r = ''CRITICAL'' \<and> status r \<noteq> ''WARNING''"
    by blast
  have "(0::int) < 200" "(200::int) < 2 ^ 1000" "(0::int) \<le> 400" "(400::int) < 2 ^ 1000"
    by simp_all
  from percentage_b64_bounded [OF this] obtain y
    where y: "percentage_b64 400 200 = Inr (PyFloat (Finite y))"
    by blast
  from get_alert_status_b64_returns [OF y, of config 335] r have "percentage r = PyFloat (Finite y)"
    by auto
  with p have "\<exists>y. 0 \<le> y \<and> percentage r = PyFloat (Finite y)"
    by auto
  with r recs s have a: "\<exists>r. get_alert_status_b64 config 400 335 200 = Inr r \<and>
      status r = ''CRITICAL'' \<and> recommendations r \<noteq> [] \<and>
      (\<exists>y. 0 \<le> y \<and> percentage r = PyFloat (Finite y))"
    by (intro exI [of _ r]) simp
  have b: "\<exists>r. get_alert_status_b64 config 250 335 200 = Inr r \<and> status r = ''CRITICAL'' \<and>
      status r \<noteq> ''WARNING''"
    using get_alert_status_b64_unordered_capacities [OF h c2, of config] by auto
  have c: "\<exists>r. get_alert_status_b64 config 100 335 200 = Inr r \<and> status r = ''SAFE''"
    using get_alert_status_b64_unordered_capacities [OF h c3, of config] by auto
  from a b c show ?thesis by (intro conjI)
qed

section \<open>Counting people\<close>

lemma count_boxes_grows: "count_boxes g bs n = Inr k \<Longrightarrow> n \<le> k"
proof (induction bs arbitrary: n)
  case Nil
  then show ?case by simp
next
  case (Cons b bs)
  show ?case
  proof (cases "cls b")
    case Nil
    with Cons.prems show ?thesis by simp
  next
    case (Cons x xs)
    show ?thesis
    proof (cases "py_int_of_float x")
      case (Inl e)
      with Cons Cons.prems show ?thesis by simp
    next
      case (Inr class_id)
      with Cons Cons.prems
      have "count_boxes g bs (if class_id = PERSON_CLASS_ID g then n + 1 else n) = Inr k"
        by simp
      from Cons.IH [OF this] show ?thesis by (simp split: if_splits)
    qed
  qed
qed

lemma count_results_grows: "count_results g rs n = Inr k \<Longrightarrow> n \<le> k"
proof (induction rs arbitrary: n)
  case Nil
  then show ?case by simp
next
  case (Cons r rs)
  show ?case
  proof (cases "boxes r")
    case None
    with Cons.prems have "count_results g rs n = Inr k" by simp
    from Cons.IH [OF this] show ?thesis .
  next
    case (Some bs)
    show ?thesis
    proof (cases "length bs > 0")
      case False
      with Some Cons.prems have "count_results g rs n = Inr k" by simp
      from Cons.IH [OF this] show ?thesis .
    next
      case True
      with Some Cons.prems
      have b: "bind_exc (count_boxes g bs n) (count_results g rs) = Inr k" by simp
      then obtain j where j: "count_boxes g bs n = Inr j" and k: "count_results g rs j = Inr k"
        by (cases "count_boxes g bs n") simp_all
      from count_boxes_grows [OF j] Cons.IH [OF k] show ?thesis by simp
    qed
  qed
qed

lemma count_people_in_frame_nonneg: "0 \<le> count_people_in_frame g resize model frame"
proof (cases "count_people_in_frame_try g resize model frame")
  case (Inl e)
  then show ?thesis by (simp add: count_people_in_frame_def)
next
  case (Inr k)
  then obtain frame' where f: "resize_frame resize frame = Inr frame'"
      and "bind_exc (model frame' (25 / 100) (5 / 10)) (\<lambda>results. count_results g results 0) = Inr k"
    unfolding count_people_in_frame_try_def
    by (cases "resize_frame resize frame") simp_all
  then obtain results where "count_results g results 0 = Inr k"
    by (cases "model frame' (25 / 100) (5 / 10)") simp_all
  from count_results_grows [OF this] Inr show ?thesis
    by (simp add: count_people_in_frame_def)
qed

lemma detector_raises:
  "resize_frame resize frame = Inr frame' \<Longrightarrow> model frame' (25 / 100) (5 / 10) = Inl e \<Longrightarrow>
   count_people_in_frame g resize model frame = 0"
  by (simp add: count_people_in_frame_def count_people_in_frame_try_def)

lemma body_raises:
  "count_people_in_frame_try g resize model frame = Inl e \<Longrightarrow>
   count_people_in_frame g resize model frame = 0"
  by (simp add: count_people_in_frame_def)

lemma get_alert_status_b64_in_range:
  assumes "\<bar>c\<bar> < 2 ^ 1023"
  shows "\<exists>r. get_alert_status_b64 g c safe_cap max_cap = Inr r"
proof -
  from percentage_b64_returns [OF assms] obtain p where "percentage_b64 c max_cap = Inr p"
    by blast
  from get_alert_status_b64_returns [OF this] show ?thesis by blast
qed

lemma get_alert_status_b64_overflow:
  assumes "0 < max_cap" and "2 ^ 1024 * max_cap \<le> c"
  shows "get_alert_status_b64 g c safe_cap max_cap = Inl OverflowError"
  using percentage_b64_overflow [OF assms] by (rule get_alert_status_b64_raises)

lemma estimate_b64_big_int:
  assumes "0 < a" and "a < 2 ^ 1023"
  shows "\<exists>e. estimate_venue_capacity_b64 (Some (PyInt a)) = Inr e"
proof -
  have "\<bar>a\<bar> < 2 ^ 1023" using assms by simp
  then have f: "py_float_of_int a = Inr (Finite (binary64 (of_int a)))"
    by (rule py_float_of_int_returns)
  define x where "x = binary64 (of_int a)"
  have "(of_int a :: rat) < of_int (2 ^ 1023)"
    using assms(2) by (simp only: of_int_less_iff)
  then have "\<bar>of_int a :: rat\<bar> \<le> 2 powi 1023"
    using assms(1) by simp
  then have "\<bar>x\<bar> \<le> 2 powi 1023"
    unfolding x_def by (rule binary64_abs_le) simp
  then have x_hi: "x \<le> 2 ^ 1023" by simp
  have x0: "0 \<le> x"
    unfolding x_def using assms(1) by (intro binary64_nonneg) simp
  have "x * (3602879701896397 / 9007199254740992) \<le> 3 * 2 ^ 1022"
    using x_hi x0 by simp
  then have s: "\<exists>n. bind_exc (py_num_mul (PyFloat (Finite x)) SAFE_DENSITY_b64) py_int_of_float = Inr n"
    unfolding SAFE_DENSITY_b64_def SAFE_DENSITY_value
    using capacity_of_float [OF x0, of "3602879701896397 / 9007199254740992"] by simp
  have "x * (6034823500676465 / 9007199254740992) \<le> 3 * 2 ^ 1022"
    using x_hi x0 by simp
  then have m: "\<exists>n. bind_exc (py_num_mul (PyFloat (Finite x)) MAX_DENSITY_b64) py_int_of_float = Inr n"
    unfolding MAX_DENSITY_b64_def MAX_DENSITY_value
    using capacity_of_float [OF x0, of "6034823500676465 / 9007199254740992"] by simp
  from s m show ?thesis
    using assms(1) by (auto simp: estimate_venue_capacity_b64_def Let_def f x_def)
qed

lemma estimate_b64_returns:
  assumes "area_sqm = None \<or> (\<exists>a. area_sqm = Some (PyInt a) \<and> a < 2 ^ 1023) \<or>
    (\<exists>x. area_sqm = Some (PyFloat (Finite x)) \<and> x < 2 ^ 1024)"
  shows "\<exists>e. estimate_venue_capacity_b64 area_sqm = Inr e"
proof -
  have default: "\<exists>e. estimate_venue_capacity_b64 area_sqm = Inr e"
    if "area_sqm = None \<or> (\<exists>x. area_sqm = Some x \<and> py_num_le_zero x)"
    using that by (simp only: estimate_b64_substitutes estimate_b64_default) simp
  from assms consider "area_sqm = None"
    | a where "area_sqm = Some (PyInt a)" "a < 2 ^ 1023"
    | x where "area_sqm = Some (PyFloat (Finite x))" "x < 2 ^ 1024"
    by blast
  then show ?thesis
  proof cases
    case 1
    then show ?thesis by (intro default) simp
  next
    case 2
    show ?thesis
    proof (cases "a \<le> 0")
      case True
      with 2 show ?thesis by (intro default) simp
    next
      case False
      with 2 show ?thesis by (simp add: estimate_b64_big_int)
    qed
  next
    case 3
    show ?thesis
    proof (cases "x \<le> 0")
      case True
      with 3 show ?thesis by (intro default) simp
    next
      case False
      with 3 show ?thesis by (simp add: estimate_b64_float)
    qed
  qed
qed

lemma estimate_b64_overflow:
  assumes "2 ^ 1024 \<le> a"
  shows "estimate_venue_capacity_b64 (Some (PyInt a)) = Inl OverflowError"
proof -
  have "(0::int) < 2 ^ 1024" by simp
  then have "0 < a" using assms by (rule less_le_trans)
  then have "\<not> a \<le> 0" by simp
  then show ?thesis
    by (simp add: estimate_venue_capacity_b64_def Let_def py_float_of_int_overflow [OF assms])
qed

text \<open>
  C9, as the code has it. When the detection model raises on the frame it is given,
  \<^verbatim>\<open>count_people_in_frame\<close> returns 0, as it does for every exception raised in its body,
  and the count it returns is never negative; nothing reaches the caller. The two other
  functions raise nothing on numbers within the binary64 range: \<^verbatim>\<open>get_alert_status\<close>
  returns for every count below \<open>2 ^ 1023\<close> in absolute value, and
  \<^verbatim>\<open>estimate_venue_capacity\<close> returns for no area, for an integer area below \<open>2 ^ 1023\<close>
  and for a finite float area. Beyond the range they raise \<^verbatim>\<open>OverflowError\<close>: for a
  count of \<open>2 ^ 1024\<close> times a positive \<open>max_cap\<close> or more, for an integer area of
  \<open>2 ^ 1024\<close> or more, and for the float area infinity; for a NaN area
  \<^verbatim>\<open>estimate_venue_capacity\<close> raises \<^verbatim>\<open>ValueError\<close>.
\<close>

theorem exceptions_of_the_core:
  "(\<forall>frame' e. resize_frame resize frame = Inr frame' \<and> model frame' (25 / 100) (5 / 10) = Inl e \<longrightarrow>
      count_people_in_frame g resize model frame = 0) \<and>
   (\<forall>e. count_people_in_frame_try g resize model frame = Inl e \<longrightarrow>
      count_people_in_frame g resize model frame = 0) \<and>
   0 \<le> count_people_in_frame g resize model frame \<and>
   (\<bar>c\<bar> < 2 ^ 1023 \<longrightarrow> (\<exists>r. get_alert_status_b64 g c safe_cap max_cap = Inr r)) \<and>
   (0 < max_cap \<and> 2 ^ 1024 * max_cap \<le> c \<longrightarrow>
      get_alert_status_b64 g c safe_cap max_cap = Inl OverflowError) \<and>
   (area_sqm = None \<or> (\<exists>a. area_sqm = Some (PyInt a) \<and> a < 2 ^ 1023) \<or>
    (\<exists>x. area_sqm = Some (PyFloat (Finite x)) \<and> x < 2 ^ 1024) \<longrightarrow>
      (\<exists>e. estimate_venue_capacity_b64 area_sqm = Inr e)) \<and>
   (2 ^ 1024 \<le> a \<longrightarrow> estimate_venue_capacity_b64 (Some (PyInt a)) = Inl OverflowError) \<and>
   estimate_venue_capacity_b64 (Some (PyFloat PosInf)) = Inl OverflowError \<and>
   estimate_venue_capacity_b64 (Some (PyFloat NaN)) = Inl ValueError"
proof (intro conjI allI impI)
  fix frame' e
  assume "resize_frame resize frame = Inr frame' \<and> model frame' (25 / 100) (5 / 10) = Inl e"
  then show "count_people_in_frame g resize model frame = 0"
    using detector_raises [of resize frame frame' model e g] by simp
next
  fix e
  assume "count_people_in_frame_try g resize model frame = Inl e"
  then show "count_people_in_frame g resize model frame = 0"
    by (rule body_raises)
next
  show "0 \<le> count_people_in_frame g resize model frame"
    by (rule count_people_in_frame_nonneg)
next
  assume "\<bar>c\<bar> < 2 ^ 1023"
  then show "\<exists>r. get_alert_status_b64 g c safe_cap max_cap = Inr r"
    by (rule get_alert_status_b64_in_range)
next
  assume "0 < max_cap \<and> 2 ^ 1024 * max_cap \<le> c"
  then show "get_alert_status_b64 g c safe_cap max_cap = Inl OverflowError"
    by (intro get_alert_status_b64_overflow) simp_all
next
  assume "area_sqm = None \<or> (\<exists>a. area_sqm = Some (PyInt a) \<and> a < 2 ^ 1023) \<or>
    (\<exists>x. area_sqm = Some (PyFloat (Finite x)) \<and> x < 2 ^ 1024)"
  then show "\<exists>e. estimate_venue_capacity_b64 area_sqm = Inr e"
    by (rule estimate_b64_returns)
next
  assume "2 ^ 1024 \<le> a"
  then show "estimate_venue_capacity_b64 (Some (PyInt a)) = Inl OverflowError"
    by (rule estimate_b64_overflow)
next
  show "estimate_venue_capacity_b64 (Some (PyFloat PosInf)) = Inl OverflowError"
    unfolding estimate_venue_capacity_b64_def SAFE_DENSITY_b64_def SAFE_DENSITY_value
    by (simp add: py_float_mul_def)
next
  show "estimate_venue_capacity_b64 (Some (PyFloat NaN)) = Inl ValueError"
    by (simp add: estimate_venue_capacity_b64_def SAFE_DENSITY_b64_def py_float_mul_def)
qed

text \<open>
  The call \<^verbatim>\<open>get_alert_status(10 ** 400, 1, 1)\<close> raises \<^verbatim>\<open>OverflowError\<close>, and so
  does \<^verbatim>\<open>estimate_venue_capacity(10 ** 400)\<close>.
\<close>

theorem exceptions_of_the_core_counterexample:
  "get_alert_status_b64 config (10 ^ 400) 1 1 = Inl OverflowError \<and>
   estimate_venue_capacity_b64 (Some (PyInt (10 ^ 400))) = Inl OverflowError"
proof -
  have "get_alert_status_b64 config (10 ^ 400) 1 1 = Inl OverflowError"
    by (rule get_alert_status_b64_overflow) simp_all
  moreover have "estimate_venue_capacity_b64 (Some (PyInt (10 ^ 400))) = Inl OverflowError"
    by (rule estimate_b64_overflow) simp
  ultimately show ?thesis by (intro conjI)
qed

theorem exceptions_of_the_core_witness:
  "count_people_in_frame config (\<lambda>f s. Inr f)
     (\<lambda>f conf iou. Inl (CollaboratorError ''detector failed''))
     (Some \<lparr> shape = [720, 1280, 3], data = () \<rparr>) = 0 \<and>
   count_people_in_frame config (\<lambda>f s. Inr f)
     (\<lambda>f conf iou.
        Inr [\<lparr> boxes = Some [\<lparr> cls = [Finite 0] \<rparr>, \<lparr> cls = [Finite 2] \<rparr>, \<lparr> cls = [Finite 0] \<rparr>] \<rparr>])
     (None :: unit ndarray option) = 0 \<and>
   count_people_in_frame config (\<lambda>f s. Inr f)
     (\<lambda>f conf iou.
        Inr [\<lparr> boxes = Some [\<lparr> cls = [Finite 0] \<rparr>, \<lparr> cls = [Finite 2] \<rparr>, \<lparr> cls = [Finite 0] \<rparr>] \<rparr>])
     (Some \<lparr> shape = [720, 1280, 3], data = () \<rparr>) = 2 \<and>
   (\<exists>r. get_alert_status_b64 config 250 200 335 = Inr r) \<and>
   get_alert_status_b64 config (2 ^ 1024) 200 1 = Inl OverflowError \<and>
   (\<exists>e. estimate_venue_capacity_b64 None = Inr e) \<and>
   (\<exists>e. estimate_venue_capacity_b64 (Some (PyFloat (Finite (15 / 2)))) = Inr e) \<and>
   estimate_venue_capacity_b64 (Some (PyInt (2 ^ 1024))) = Inl OverflowError"
proof -
  let ?frame = "Some \<lparr> shape = [720, 1280, 3], data = () \<rparr>"
  let ?resize = "(\<lambda>f s. Inr f) :: unit resizer"
  let ?broken = "(\<lambda>f conf iou. Inl (CollaboratorError ''detector failed'')) :: unit detector"
  let ?model = "(\<lambda>f conf iou.
      Inr [\<lparr> boxes = Some [\<lparr> cls = [Finite 0] \<rparr>, \<lparr> cls = [Finite 2] \<rparr>, \<lparr> cls = [Finite 0] \<rparr>] \<rparr>])
      :: unit detector"
  have f: "resize_frame ?resize ?frame = Inr \<lparr> shape = [720, 1280, 3], data = () \<rparr>"
    by (simp add: resize_frame_def)
  have a: "count_people_in_frame config ?resize ?broken ?frame = 0"
    using exceptions_of_the_core [of ?resize ?frame ?broken config 0 0 0 None 0] f
    by blast
  have t: "count_people_in_frame_try config ?resize ?model None = Inl AttributeError"
    by (simp add: count_people_in_frame_try_def resize_frame_def)
  have b: "count_people_in_frame config ?resize ?model None = 0"
    using exceptions_of_the_core [of ?resize None ?model config 0 0 0 None 0] t
    by blast
  have c: "count_people_in_frame config ?resize ?model ?frame = 2"
    by (simp add: count_people_in_frame_def count_people_in_frame_try_def f py_int_def config_def)
  have d: "\<exists>r. get_alert_status_b64 config 250 200 335 = Inr r"
    using exceptions_of_the_core [of ?resize None ?model config 250 200 335 None 0]
    by simp
  have e: "get_alert_status_b64 config (2 ^ 1024) 200 1 = Inl OverflowError"
    using exceptions_of_the_core [of ?resize None ?model config "2 ^ 1024" 200 1 None 0]
    by simp
  have g: "\<exists>e. estimate_venue_capacity_b64 None = Inr e"
    using exceptions_of_the_core [of ?resize None ?model config 0 0 0 None 0]
    by simp
  have "\<exists>x. Some (PyFloat (Finite (15 / 2))) = Some (PyFloat (Finite x)) \<and> x < 2 ^ 1024"
    by (intro exI [of _ "15 / 2"]) simp
  then have h: "\<exists>e. estimate_venue_capacity_b64 (Some (PyFloat (Finite (15 / 2)))) = Inr e"
    using exceptions_of_the_core
      [of ?resize None ?model config 0 0 0 "Some (PyFloat (Finite (15 / 2)))" 0]
    by blast
  have i: "estimate_venue_capacity_b64 (Some (PyInt (2 ^ 1024))) = Inl OverflowError"
    using exceptions_of_the_core [of ?resize None ?model config 0 0 0 None "2 ^ 1024"]
    by simp
  from a b c d e g h i show ?thesis by (intro conjI)
qed

end
